theory Spec2Isabelle
  imports Main
begin

section \<open>Values of the Go runtime and of the IRC library\<close>

text \<open>
  Instants (\<open>time.Time\<close>) are counted in nanoseconds from the Unix epoch, as an unbounded
  integer. A \<open>time.Duration\<close> is a signed 64-bit count of nanoseconds; \<open>Time.Sub\<close>
  saturates at the two ends of that range, as the standard library documents.
\<close>

type_synonym time = int
type_synonym duration = int

definition Second :: duration where
  "Second = 1000000000"

definition Minute :: duration where
  "Minute = 60 * Second"

definition maxDuration :: duration where
  "maxDuration = 2 ^ 63 - 1"

definition minDuration :: duration where
  "minDuration = - (2 ^ 63)"

definition time_Sub :: "time \<Rightarrow> time \<Rightarrow> duration" where
  "time_Sub t u =
     (let d = t - u in
      if maxDuration < d then maxDuration
      else if d < minDuration then minDuration
      else d)"

text \<open>The zero \<open>time.Time\<close> is January 1 of year 1, 00:00 UTC.\<close>

definition zeroTime :: time where
  "zeroTime = - 62135596800 * Second"

text \<open>
  A Go \<open>error\<close>. \<open>io.EOF\<close> is a sentinel that the program compares by identity; every
  other error is known to the program by its text only.
\<close>

datatype go_error = EOF | Err string

fun error_text :: "go_error \<Rightarrow> string" where
  "error_text EOF = ''EOF''"
| "error_text (Err t) = t"

text \<open>An \<open>irc.Message\<close>.\<close>

record message =
  Prefix :: string
  Command :: string
  Params :: "string list"

text \<open>The values the program passes to the formatting functions as \<open>interface{}\<close>.\<close>

datatype go_value = VString string | VError go_error | VMessage message

text \<open>\<open>irc.ReplyWelcome\<close>, the numeric of the welcome reply.\<close>

definition ReplyWelcome :: string where
  "ReplyWelcome = ''001''"

section \<open>The environment: client library, clock, formatting, diagnostics\<close>

text \<open>
  Everything outside the program is a parameter: the world is a value of an arbitrary type
  \<open>'w\<close>, and each library call is a function on it that returns its result together with
  the world after the call. The fields are the methods of \<open>godrop.Client\<close> the program
  calls, \<open>time.Now\<close>, \<open>time.Sleep\<close>, \<open>log.Print\<close>, and the pure functions
  \<open>fmt.Sprintf\<close> and \<open>Time.Format(time.RFC3339)\<close>.
\<close>

record 'w env =
  IsConnected :: "'w \<Rightarrow> bool \<times> 'w"
  Connect :: "'w \<Rightarrow> go_error option \<times> 'w"
  Register :: "'w \<Rightarrow> go_error option \<times> 'w"
  SetRegistered :: "'w \<Rightarrow> 'w"
  ReadMessage :: "'w \<Rightarrow> (go_error + message) \<times> 'w"
  Join :: "string \<Rightarrow> 'w \<Rightarrow> go_error option \<times> 'w"
  Pong :: "message \<Rightarrow> 'w \<Rightarrow> go_error option \<times> 'w"
  Message :: "string \<Rightarrow> string \<Rightarrow> 'w \<Rightarrow> go_error option \<times> 'w"
  Close :: "'w \<Rightarrow> go_error option \<times> 'w"
  Now :: "'w \<Rightarrow> time \<times> 'w"
  Sleep :: "duration \<Rightarrow> 'w \<Rightarrow> 'w"
  LogPrint :: "string \<Rightarrow> 'w \<Rightarrow> 'w"
  Sprintf :: "string \<Rightarrow> go_value list \<Rightarrow> string"
  FormatRFC3339 :: "time \<Rightarrow> string"

section \<open>The session state and its operations\<close>

record state =
  lastActivityTime :: time
  errors :: "string list"

definition waitPeriod :: duration where
  "waitPeriod = 15 * Minute"

definition addError :: "'w env \<Rightarrow> string \<Rightarrow> go_value list \<Rightarrow> state \<Rightarrow> 'w \<Rightarrow> state \<times> 'w" where
  "addError env format args s w =
     (case Now env w of (t, w1) \<Rightarrow>
        let finalArgs = [VString (FormatRFC3339 env t)];
            finalArgs = (if 0 < length args then finalArgs @ args else finalArgs);
            m = Sprintf env (''%s: '' @ format) finalArgs;
            w2 = LogPrint env m w1
        in (s\<lparr>errors := errors s @ [m]\<rparr>, w2))"

definition shouldGiveUp :: "'w env \<Rightarrow> state \<Rightarrow> 'w \<Rightarrow> bool \<times> 'w" where
  "shouldGiveUp env s w =
     (case Now env w of (t, w1) \<Rightarrow> (waitPeriod < time_Sub t (lastActivityTime s), w1))"

text \<open>
  The inner loop of \<open>sendMessages\<close>, \<open>for i, e := range s.errors\<close>: \<open>i\<close> is the index
  reached and the list is what is left of the slice the \<open>range\<close> clause evaluated. A
  result \<open>Some err\<close> is the \<open>return err\<close> of the function.
\<close>

fun sendErrors :: "'w env \<Rightarrow> string \<Rightarrow> nat \<Rightarrow> string list \<Rightarrow> state \<Rightarrow> 'w \<Rightarrow> go_error option \<times> state \<times> 'w" where
  "sendErrors env ch i [] s w = (None, s, w)"
| "sendErrors env ch i (e # es) s w =
     (case Message env ch e w of
        (Some err, w1) \<Rightarrow> (Some err, s\<lparr>errors := drop i (errors s)\<rparr>, w1)
      | (None, w1) \<Rightarrow>
          (case Now env w1 of (t, w2) \<Rightarrow>
             sendErrors env ch (Suc i) es (s\<lparr>lastActivityTime := t\<rparr>) w2))"

text \<open>The outer loop, \<open>for _, ch := range conf.Channels\<close>, and what follows it.\<close>

fun sendChannels :: "'w env \<Rightarrow> string list \<Rightarrow> state \<Rightarrow> 'w \<Rightarrow> go_error option \<times> state \<times> 'w" where
  "sendChannels env [] s w = (None, s\<lparr>errors := []\<rparr>, w)"
| "sendChannels env (ch # chs) s w =
     (case sendErrors env ch 0 (errors s) s w of
        (Some err, s1, w1) \<Rightarrow> (Some err, s1, w1)
      | (None, s1, w1) \<Rightarrow> sendChannels env chs s1 w1)"

record Config =
  Channels :: "string list"
  Nick :: string
  ServerHost :: string
  ServerPort :: int

definition sendMessages :: "'w env \<Rightarrow> Config \<Rightarrow> state \<Rightarrow> 'w \<Rightarrow> go_error option \<times> state \<times> 'w" where
  "sendMessages env conf s w = sendChannels env (Channels conf) s w"

section \<open>Connecting\<close>

text \<open>
  The loop over \<open>conf.Channels\<close> inside \<open>connect\<close>. \<open>Some err\<close> is the
  \<open>return fmt.Errorf(...)\<close>; \<open>None\<close> is the end of the loop, after which
  \<open>connect\<close> returns \<open>nil\<close>.
\<close>

fun connect_join :: "'w env \<Rightarrow> string list \<Rightarrow> 'w \<Rightarrow> go_error option \<times> 'w" where
  "connect_join env [] w = (None, w)"
| "connect_join env (ch # chs) w =
     (case Join env ch w of
        (Some err, w1) \<Rightarrow>
          (Some (Err (Sprintf env ''error joining channel: %s: %s'' [VString ch, VError err])), w1)
      | (None, w1) \<Rightarrow> connect_join env chs w1)"

text \<open>
  The \<open>for { ... }\<close> loop of \<open>connect\<close>, which reads until a welcome reply, an
  \<open>ERROR\<close> or a failed read. It has no bound: a server that keeps sending other
  messages keeps it running, and then the value is \<open>None\<close>.
\<close>

partial_function (option) connect_loop :: "'w env \<Rightarrow> Config \<Rightarrow> 'w \<Rightarrow> (go_error option \<times> 'w) option" where
  "connect_loop env conf w =
     (case ReadMessage env w of
        (Inl err, w1) \<Rightarrow> Some (Some err, w1)
      | (Inr m, w1) \<Rightarrow>
          if Command m = ReplyWelcome then
            Some (connect_join env (Channels conf) (SetRegistered env w1))
          else if Command m = ''ERROR'' then
            Some (Some (Err (Sprintf env ''received ERROR: %s'' [VMessage m])), w1)
          else connect_loop env conf w1)"

definition connect :: "'w env \<Rightarrow> Config \<Rightarrow> 'w \<Rightarrow> (go_error option \<times> 'w) option" where
  "connect env conf w =
     (case Connect env w of
        (Some err, w1) \<Rightarrow> Some (Some err, w1)
      | (None, w1) \<Rightarrow>
          (case Register env w1 of
             (Some err, w2) \<Rightarrow> Some (Some err, w2)
           | (None, w2) \<Rightarrow> connect_loop env conf w2))"

section \<open>The main loop\<close>

text \<open>
  The \<open>if s.shouldGiveUp() { _ = c.Close() }\<close> that follows a failed pong and a failed
  flush.
\<close>

definition closeIfGivenUp :: "'w env \<Rightarrow> state \<Rightarrow> 'w \<Rightarrow> 'w" where
  "closeIfGivenUp env s w =
     (case shouldGiveUp env s w of (g, w1) \<Rightarrow> if g then snd (Close env w1) else w1)"

text \<open>
  The block of \<open>run\<close> under \<open>if !c.IsConnected()\<close>, up to its \<open>continue\<close>. The
  value is \<open>None\<close> when \<open>connect\<close> does not return.
\<close>

definition run_disconnected :: "'w env \<Rightarrow> Config \<Rightarrow> state \<Rightarrow> 'w \<Rightarrow> (state \<times> 'w) option" where
  "run_disconnected env conf s w =
     (case connect env conf w of
        None \<Rightarrow> None
      | Some (Some err, w1) \<Rightarrow>
          (case addError env ''error connecting: %s'' [VError err] s w1 of
             (s1, w2) \<Rightarrow> Some (s1, snd (Close env w2)))
      | Some (None, w1) \<Rightarrow>
          (case Now env w1 of (t, w2) \<Rightarrow> Some (s\<lparr>lastActivityTime := t\<rparr>, w2)))"

text \<open>
  The rest of the body, from \<open>c.ReadMessage()\<close> to a \<open>continue\<close> or the end of the
  body.
\<close>

definition run_connected :: "'w env \<Rightarrow> Config \<Rightarrow> state \<Rightarrow> 'w \<Rightarrow> state \<times> 'w" where
  "run_connected env conf s w =
     (case ReadMessage env w of
        (Inl err, w1) \<Rightarrow>
          (case addError env ''error reading: %s'' [VError err] s w1 of
             (s1, w2) \<Rightarrow>
               (case shouldGiveUp env s1 w2 of
                  (g, w3) \<Rightarrow> (s1, if g \<or> err = EOF then snd (Close env w3) else w3)))
      | (Inr m, w1) \<Rightarrow>
          (case Now env w1 of
             (t, w2) \<Rightarrow>
               let s1 = s\<lparr>lastActivityTime := t\<rparr> in
               if Command m = ''ERROR'' then
                 (case addError env ''got ERROR: %s'' [VMessage m] s1 w2 of
                    (s2, w3) \<Rightarrow> (s2, snd (Close env w3)))
               else if Command m \<noteq> ''PING'' then (s1, w2)
               else
                 (case Pong env m w2 of
                    (Some err, w3) \<Rightarrow>
                      (case addError env ''error PONGing: %s'' [VError err] s1 w3 of
                         (s2, w4) \<Rightarrow> (s2, closeIfGivenUp env s2 w4))
                  | (None, w3) \<Rightarrow>
                      (case Now env w3 of
                         (t2, w4) \<Rightarrow>
                           (case sendMessages env conf (s1\<lparr>lastActivityTime := t2\<rparr>) w4 of
                              (Some err, s2, w5) \<Rightarrow>
                                (case addError env ''error messaging: %s'' [VError err] s2 w5 of
                                   (s3, w6) \<Rightarrow> (s3, closeIfGivenUp env s3 w6))
                            | (None, s2, w5) \<Rightarrow> (s2, w5))))))"

text \<open>One pass through the body of the \<open>for\<close> loop of \<open>run\<close>.\<close>

definition run_body :: "'w env \<Rightarrow> Config \<Rightarrow> state \<Rightarrow> 'w \<Rightarrow> (state \<times> 'w) option" where
  "run_body env conf s w =
     (case IsConnected env (Sleep env Second w) of
        (c, w1) \<Rightarrow>
          if \<not> c then run_disconnected env conf s w1
          else Some (run_connected env conf s w1))"

text \<open>
  \<open>run\<close> never returns. \<open>run_steps n\<close> is the state it has reached after \<open>n\<close> passes
  through the body, started from the state given.
\<close>

fun run_steps :: "'w env \<Rightarrow> Config \<Rightarrow> nat \<Rightarrow> state \<Rightarrow> 'w \<Rightarrow> (state \<times> 'w) option" where
  "run_steps env conf 0 s w = Some (s, w)"
| "run_steps env conf (Suc n) s w =
     (case run_body env conf s w of
        None \<Rightarrow> None
      | Some (s1, w1) \<Rightarrow> run_steps env conf n s1 w1)"

definition initial_state :: state where
  "initial_state = \<lparr>lastActivityTime = zeroTime, errors = []\<rparr>"

section \<open>Observing the calls\<close>

text \<open>
  The calls a run makes on its environment, each with what it returned. \<open>traced env\<close> is
  \<open>env\<close> with a log of the calls kept beside the world; the program run on it behaves as
  on \<open>env\<close> and leaves the list of what it called, in order.
\<close>

datatype event =
    EIsConnected bool
  | EConnect "go_error option"
  | ERegister "go_error option"
  | ESetRegistered
  | ERead "go_error + message"
  | EJoin string "go_error option"
  | EPong message "go_error option"
  | EMessage string string "go_error option"
  | EClose "go_error option"
  | ENow time
  | ESleep duration
  | ELog string

definition logged :: "('r \<Rightarrow> event) \<Rightarrow> ('w \<Rightarrow> 'r \<times> 'w) \<Rightarrow> 'w \<times> event list \<Rightarrow> 'r \<times> 'w \<times> event list" where
  "logged ev f = (\<lambda>(w, tr). case f w of (r, w1) \<Rightarrow> (r, w1, tr @ [ev r]))"

definition traced :: "'w env \<Rightarrow> ('w \<times> event list) env" where
  "traced env =
     \<lparr>IsConnected = logged EIsConnected (IsConnected env),
      Connect = logged EConnect (Connect env),
      Register = logged ERegister (Register env),
      SetRegistered = (\<lambda>(w, tr). (SetRegistered env w, tr @ [ESetRegistered])),
      ReadMessage = logged ERead (ReadMessage env),
      Join = (\<lambda>ch. logged (EJoin ch) (Join env ch)),
      Pong = (\<lambda>m. logged (EPong m) (Pong env m)),
      Message = (\<lambda>ch e. logged (EMessage ch e) (Message env ch e)),
      Close = logged EClose (Close env),
      Now = logged ENow (Now env),
      Sleep = (\<lambda>d (w, tr). (Sleep env d w, tr @ [ESleep d])),
      LogPrint = (\<lambda>m (w, tr). (LogPrint env m w, tr @ [ELog m])),
      Sprintf = Sprintf env,
      FormatRFC3339 = FormatRFC3339 env\<rparr>"

section \<open>A fragment of \<open>fmt.Sprintf\<close>\<close>

text \<open>
  The documented behaviour of \<open>fmt.Sprintf\<close> on format strings made of literal bytes,
  \<open>%%\<close>, and the verbs \<open>%s\<close> and \<open>%v\<close>, either plain or with an explicit argument
  index as in \<open>%[2]s\<close>. A verb with no operand left prints \<open>%!s(MISSING)\<close>. The value is
  \<open>None\<close> for every format outside the fragment (flags, width, precision, other verbs,
  a bad index) and when operands are left over. \<open>sh\<close> is how an operand prints under
  \<open>%s\<close> and \<open>%v\<close>; \<open>n\<close> is the number of the next operand and \<open>re\<close> records that an
  explicit index has been seen.
\<close>

datatype fmt_mode = Text | Percent | Index nat bool | Indexed nat

definition digit_val :: "char \<Rightarrow> nat option" where
  "digit_val c = (let n = (of_char c :: nat) in if 48 \<le> n \<and> n \<le> 57 then Some (n - 48) else None)"

fun doPrintf :: "(go_value \<Rightarrow> string) \<Rightarrow> fmt_mode \<Rightarrow> string \<Rightarrow> go_value list \<Rightarrow> nat \<Rightarrow> bool \<Rightarrow> string option" where
  "doPrintf sh Text [] a n re = (if re \<or> length a \<le> n then Some [] else None)"
| "doPrintf sh md [] a n re = None"
| "doPrintf sh Text (c # cs) a n re =
     (if c = CHR ''%'' then doPrintf sh Percent cs a n re
      else map_option ((#) c) (doPrintf sh Text cs a n re))"
| "doPrintf sh Percent (c # cs) a n re =
     (if c = CHR ''%'' then map_option ((#) c) (doPrintf sh Text cs a n re)
      else if c = CHR ''s'' \<or> c = CHR ''v'' then
        (if n < length a then map_option ((@) (sh (a ! n))) (doPrintf sh Text cs a (Suc n) re)
         else map_option ((@) (''%!'' @ [c] @ ''(MISSING)'')) (doPrintf sh Text cs a n re))
      else if c = CHR ''['' then doPrintf sh (Index 0 False) cs a n True
      else None)"
| "doPrintf sh (Index k any) (c # cs) a n re =
     (case digit_val c of
        Some d \<Rightarrow>
          if 1000000 < 10 * k + d then None
          else doPrintf sh (Index (10 * k + d) True) cs a n re
      | None \<Rightarrow>
          if c = CHR '']'' \<and> any \<and> 1 \<le> k \<and> k \<le> length a
          then doPrintf sh (Indexed (k - 1)) cs a n re
          else None)"
| "doPrintf sh (Indexed k) (c # cs) a n re =
     (if c = CHR ''s'' \<or> c = CHR ''v'' then
        map_option ((@) (sh (a ! k))) (doPrintf sh Text cs a (Suc k) re)
      else None)"

definition fmt_Sprintf :: "(go_value \<Rightarrow> string) \<Rightarrow> string \<Rightarrow> go_value list \<Rightarrow> string option" where
  "fmt_Sprintf sh format a = doPrintf sh Text format a 0 False"

text \<open>An environment formats as \<open>fmt\<close> does when its \<open>Sprintf\<close> agrees with the fragment.\<close>

definition formats_as_fmt :: "(go_value \<Rightarrow> string) \<Rightarrow> 'w env \<Rightarrow> bool" where
  "formats_as_fmt sh env =
     (\<forall>format a out. fmt_Sprintf sh format a = Some out \<longrightarrow> Sprintf env format a = out)"

section \<open>A simulated environment\<close>

text \<open>
  A server and a clock simple enough to run: the reads return the entries of
  \<open>sim_inbox\<close> in turn and end of stream after them; the calls that can fail consume one
  entry of \<open>sim_failing\<close> each and fail when it is \<open>True\<close>; \<open>Close\<close> disconnects;
  the clock moves only while the program sleeps.
\<close>

record sim =
  sim_up :: bool
  sim_clock :: time
  sim_inbox :: "(go_error + message) list"
  sim_failing :: "bool list"

definition sim_call :: "sim \<Rightarrow> go_error option \<times> sim" where
  "sim_call w =
     (case sim_failing w of
        [] \<Rightarrow> (None, w)
      | f # fs \<Rightarrow> (if f then Some (Err ''refused'') else None, w\<lparr>sim_failing := fs\<rparr>))"

definition sim_read :: "sim \<Rightarrow> (go_error + message) \<times> sim" where
  "sim_read w =
     (case sim_inbox w of
        [] \<Rightarrow> (Inl EOF, w)
      | r # rs \<Rightarrow> (r, w\<lparr>sim_inbox := rs\<rparr>))"

fun sim_show :: "go_value \<Rightarrow> string" where
  "sim_show (VString t) = t"
| "sim_show (VError e) = error_text e"
| "sim_show (VMessage m) = Command m"

definition sim_env :: "sim env" where
  "sim_env =
     \<lparr>IsConnected = (\<lambda>w. (sim_up w, w)),
      Connect = (\<lambda>w. case sim_call w of (r, w1) \<Rightarrow> (r, w1\<lparr>sim_up := (r = None)\<rparr>)),
      Register = sim_call,
      SetRegistered = (\<lambda>w. w),
      ReadMessage = sim_read,
      Join = (\<lambda>ch. sim_call),
      Pong = (\<lambda>m. sim_call),
      Message = (\<lambda>ch e. sim_call),
      Close = (\<lambda>w. (None, w\<lparr>sim_up := False\<rparr>)),
      Now = (\<lambda>w. (sim_clock w, w)),
      Sleep = (\<lambda>d w. w\<lparr>sim_clock := sim_clock w + d\<rparr>),
      LogPrint = (\<lambda>m w. w),
      Sprintf = (\<lambda>format a. case fmt_Sprintf sim_show format a of Some out \<Rightarrow> out | None \<Rightarrow> []),
      FormatRFC3339 = (\<lambda>t. ''2006-01-02T15:04:05Z'')\<rparr>"

section \<open>Reading a trace\<close>

text \<open>The deliveries in a trace: channel, text and outcome of each \<open>Message\<close> call.\<close>

fun deliveries :: "event list \<Rightarrow> (string \<times> string \<times> go_error option) list" where
  "deliveries [] = []"
| "deliveries (EMessage ch e r # evs) = (ch, e, r) # deliveries evs"
| "deliveries (_ # evs) = deliveries evs"

text \<open>The successful delivery of each of \<open>es\<close>, in order, to the channel \<open>ch\<close>.\<close>

definition delivered :: "string \<Rightarrow> string list \<Rightarrow> (string \<times> string \<times> go_error option) list" where
  "delivered ch es = map (\<lambda>e. (ch, e, None)) es"


text \<open>The entry \<open>addError\<close> writes when the clock reads \<open>t\<close>.\<close>

definition error_entry :: "'w env \<Rightarrow> time \<Rightarrow> string \<Rightarrow> go_value list \<Rightarrow> string" where
  "error_entry env t format args =
     Sprintf env (''%s: '' @ format) (VString (FormatRFC3339 env t) # args)"


section \<open>Reading the trace of a connect\<close>

text \<open>
  A message the registration loop of \<open>connect\<close> passes over; the reads of such messages
  and the joins that succeeded, as events; \<open>ordinary_reads env ms w = Some w1\<close> when the
  reads from \<open>w\<close> return the messages \<open>ms\<close>, all of them passed over, and leave \<open>w1\<close>;
  the error \<open>connect\<close> makes of a failed join; and the ways the loop ends, \<open>loop_end\<close>:
  a failed read, an \<open>ERROR\<close>, a welcome reply followed by a join of every channel, or a
  welcome reply followed by joins up to the first that fails.
\<close>

definition ordinary :: "message \<Rightarrow> bool" where
  "ordinary m = (Command m \<noteq> ReplyWelcome \<and> Command m \<noteq> ''ERROR'')"

definition reads :: "message list \<Rightarrow> event list" where
  "reads ms = map (\<lambda>m. ERead (Inr m)) ms"

definition joins :: "string list \<Rightarrow> event list" where
  "joins chs = map (\<lambda>ch. EJoin ch None) chs"

fun ordinary_reads :: "'w env \<Rightarrow> message list \<Rightarrow> 'w \<Rightarrow> 'w option" where
  "ordinary_reads env [] w = Some w"
| "ordinary_reads env (m # ms) w =
     (case ReadMessage env w of
        (Inr m', w1) \<Rightarrow> if m' = m \<and> ordinary m then ordinary_reads env ms w1 else None
      | (Inl err, w1) \<Rightarrow> None)"

definition join_error :: "'w env \<Rightarrow> string \<Rightarrow> go_error \<Rightarrow> go_error" where
  "join_error env ch err = Err (Sprintf env ''error joining channel: %s: %s'' [VString ch, VError err])"

definition loop_end :: "'w env \<Rightarrow> Config \<Rightarrow> go_error option \<Rightarrow> event list \<Rightarrow> bool" where
  "loop_end env conf r evs =
     ((\<exists>err. r = Some err \<and> evs = [ERead (Inl err)])
    \<or> (\<exists>m. Command m = ''ERROR'' \<and>
          r = Some (Err (Sprintf env ''received ERROR: %s'' [VMessage m])) \<and>
          evs = [ERead (Inr m)])
    \<or> (\<exists>m. Command m = ReplyWelcome \<and> r = None \<and>
          evs = [ERead (Inr m), ESetRegistered] @ joins (Channels conf))
    \<or> (\<exists>m k err. Command m = ReplyWelcome \<and> k < length (Channels conf) \<and>
          r = Some (join_error env (Channels conf ! k) err) \<and>
          evs = [ERead (Inr m), ESetRegistered] @ joins (take k (Channels conf))
                @ [EJoin (Channels conf ! k) (Some err)]))"


section \<open>Reading the configuration file\<close>

subsection \<open>The library functions \<open>parseConfig\<close> calls\<close>

text \<open>
  \<open>strings.TrimSpace\<close> removes the leading and the trailing white space of a string, white
  space being what \<open>unicode.IsSpace\<close> accepts: the six ASCII characters tab, line feed,
  vertical tab, form feed, carriage return and space, and U+0085, U+00A0, U+1680,
  U+2000 to U+200A, U+2028, U+2029, U+202F, U+205F and U+3000. A Go string is a
  sequence of bytes, and these are their UTF-8 encodings. \<open>space_width s\<close> is the number
  of bytes of the white space character \<open>s\<close> starts with, and 0 when it starts with none;
  \<open>space_width_last\<close> is the same for the character the reversed string \<open>r\<close> ends with.
\<close>

definition asciiSpace :: "char \<Rightarrow> bool" where
  "asciiSpace c = (of_char c \<in> {9, 10, 11, 12, 13, 32 :: nat})"

definition space_tail2 :: "nat \<Rightarrow> nat \<Rightarrow> nat \<Rightarrow> bool" where
  "space_tail2 b0 b1 b2 =
     (b0 = 0xE1 \<and> b1 = 0x9A \<and> b2 = 0x80
    \<or> b0 = 0xE2 \<and> b1 = 0x80 \<and> (0x80 \<le> b2 \<and> b2 \<le> 0x8A \<or> b2 = 0xA8 \<or> b2 = 0xA9 \<or> b2 = 0xAF)
    \<or> b0 = 0xE2 \<and> b1 = 0x81 \<and> b2 = 0x9F
    \<or> b0 = 0xE3 \<and> b1 = 0x80 \<and> b2 = 0x80)"

definition space_tail1 :: "nat \<Rightarrow> nat \<Rightarrow> bool" where
  "space_tail1 b0 b1 = (b0 = 0xC2 \<and> (b1 = 0x85 \<or> b1 = 0xA0))"

fun space_width :: "string \<Rightarrow> nat" where
  "space_width [] = 0"
| "space_width (c # cs) =
     (if asciiSpace c then 1
      else case cs of
        [] \<Rightarrow> 0
      | d # ds \<Rightarrow>
          if space_tail1 (of_char c) (of_char d) then 2
          else case ds of
            [] \<Rightarrow> 0
          | e # es \<Rightarrow> if space_tail2 (of_char c) (of_char d) (of_char e) then 3 else 0)"

fun space_width_last :: "string \<Rightarrow> nat" where
  "space_width_last [] = 0"
| "space_width_last (c # cs) =
     (if asciiSpace c then 1
      else case cs of
        [] \<Rightarrow> 0
      | d # ds \<Rightarrow>
          if space_tail1 (of_char d) (of_char c) then 2
          else case ds of
            [] \<Rightarrow> 0
          | e # es \<Rightarrow> if space_tail2 (of_char e) (of_char d) (of_char c) then 3 else 0)"

fun trim_with :: "(string \<Rightarrow> nat) \<Rightarrow> nat \<Rightarrow> string \<Rightarrow> string" where
  "trim_with width 0 s = s"
| "trim_with width (Suc fuel) s =
     (if width s = 0 then s else trim_with width fuel (drop (width s) s))"

text \<open>
  Each step removes at least one byte, so \<open>length s\<close> steps are enough; the trailing
  white space is removed on the reversed string.
\<close>

definition TrimSpace :: "string \<Rightarrow> string" where
  "TrimSpace s =
     (let l = trim_with space_width (length s) s
      in rev (trim_with space_width_last (length l) (rev l)))"

text \<open>
  \<open>strings.Split(s, sep)\<close> and \<open>strings.SplitN(s, sep, 2)\<close> for a separator of one byte.
\<close>

fun Split :: "string \<Rightarrow> char \<Rightarrow> string list" where
  "Split [] sep = [[]]"
| "Split (c # cs) sep =
     (if c = sep then [] # Split cs sep
      else case Split cs sep of
        [] \<Rightarrow> [[c]]
      | p # ps \<Rightarrow> (c # p) # ps)"

definition SplitN2 :: "string \<Rightarrow> char \<Rightarrow> string list" where
  "SplitN2 s sep =
     (if sep \<in> set s
      then [takeWhile (\<lambda>c. c \<noteq> sep) s, tl (dropWhile (\<lambda>c. c \<noteq> sep) s)]
      else [s])"

text \<open>
  \<open>strconv.ParseInt(s, 10, 64)\<close>: an optional sign, then one decimal digit or more, and
  a value that fits a signed 64-bit integer; \<open>None\<close> is its error.
\<close>

definition isDigit :: "char \<Rightarrow> bool" where
  "isDigit c = (48 \<le> (of_char c :: nat) \<and> (of_char c :: nat) \<le> 57)"

definition decimal :: "string \<Rightarrow> nat" where
  "decimal ds = foldl (\<lambda>n c. 10 * n + (of_char c - 48)) 0 ds"

definition ParseUint :: "string \<Rightarrow> nat option" where
  "ParseUint s = (if s = [] \<or> \<not> list_all isDigit s then None else Some (decimal s))"

definition ParseInt :: "string \<Rightarrow> int option" where
  "ParseInt s =
     (if s = [] then None
      else
        let neg = (hd s = CHR ''-'');
            digits = (if hd s = CHR ''+'' \<or> hd s = CHR ''-'' then tl s else s)
        in case ParseUint digits of
             None \<Rightarrow> None
           | Some un \<Rightarrow>
               if \<not> neg \<and> 2 ^ 63 \<le> un then None
               else if neg \<and> 2 ^ 63 < un then None
               else Some (if neg then - int un else int un))"

text \<open>
  A \<open>bufio.Scanner\<close> with the default split function, \<open>ScanLines\<close>, on the bytes of the
  file. \<open>raw_lines\<close> cuts the bytes at each line feed; a last line with no line feed
  counts when it is not empty. The scanner's buffer holds at most \<open>MaxScanTokenSize\<close>
  bytes: at the first line of that many bytes or more (the line feed not counted) it
  stops with \<open>ErrTooLong\<close>, and the lines before it are the tokens it has returned. Each
  token has one trailing carriage return dropped.
\<close>

definition MaxScanTokenSize :: nat where
  "MaxScanTokenSize = 64 * 1024"

fun raw_lines_acc :: "string \<Rightarrow> string \<Rightarrow> string list" where
  "raw_lines_acc acc [] = (if acc = [] then [] else [rev acc])"
| "raw_lines_acc acc (c # cs) =
     (if c = CHR 0x0A then rev acc # raw_lines_acc [] cs
      else raw_lines_acc (c # acc) cs)"

definition raw_lines :: "string \<Rightarrow> string list" where
  "raw_lines buf = raw_lines_acc [] buf"

definition dropCR :: "string \<Rightarrow> string" where
  "dropCR l = (if l \<noteq> [] \<and> last l = CHR 0x0D then butlast l else l)"

definition fits :: "string \<Rightarrow> bool" where
  "fits l = (length l < MaxScanTokenSize)"

text \<open>The tokens of all the calls of \<open>Scan\<close>, and whether \<open>scanner.Err()\<close> is an error.\<close>

definition scan_tokens :: "string \<Rightarrow> string list \<times> bool" where
  "scan_tokens buf =
     (map dropCR (takeWhile fits (raw_lines buf)), \<not> list_all fits (raw_lines buf))"

subsection \<open>\<open>parseConfig\<close>\<close>

datatype config_error =
    ReadFileError string go_error
  | MalformedLine string
  | BlankKey string
  | DuplicateKey string
  | ScanError string
  | MalformedChannel string
  | NoChannels
  | NoNick
  | NoServerHost
  | InvalidPort string

text \<open>A Go map read at a key it does not have gives the zero value, the empty string.\<close>

definition lookup :: "(string \<rightharpoonup> string) \<Rightarrow> string \<Rightarrow> string" where
  "lookup m k = (case m k of None \<Rightarrow> [] | Some v \<Rightarrow> v)"

text \<open>The loop \<open>for scanner.Scan()\<close>, on the tokens still to come and the map so far.\<close>

fun scan_entries :: "string list \<Rightarrow> (string \<rightharpoonup> string) \<Rightarrow> config_error + (string \<rightharpoonup> string)" where
  "scan_entries [] m = Inr m"
| "scan_entries (line # lines) m =
     (let text = TrimSpace line in
      if text = [] \<or> hd text = CHR ''#'' then scan_entries lines m
      else
        let pieces = SplitN2 text CHR ''='' in
        if length pieces \<noteq> 2 then Inl (MalformedLine text)
        else
          let key = TrimSpace (pieces ! 0);
              val = TrimSpace (pieces ! 1)
          in if key = [] then Inl (BlankKey text)
             else if m key \<noteq> None then Inl (DuplicateKey key)
             else scan_entries lines (m(key \<mapsto> val)))"

text \<open>The loop over \<open>channelsRaw\<close>, with \<open>conf.Channels\<close> so far.\<close>

fun parse_channels :: "string list \<Rightarrow> string list \<Rightarrow> config_error + string list" where
  "parse_channels [] chans = Inr chans"
| "parse_channels (c0 # cs) chans =
     (let c = TrimSpace c0 in
      if c = [] then parse_channels cs chans
      else if hd c \<noteq> CHR ''#'' then Inl (MalformedChannel c)
      else parse_channels cs (chans @ [c]))"

text \<open>
  \<open>parseConfig\<close>, given what \<open>ioutil.ReadFile\<close> returns for each path. \<open>int(p)\<close> keeps
  the value of \<open>p\<close> where \<open>int\<close> has 64 bits.
\<close>

definition parseConfig :: "(string \<Rightarrow> go_error + string) \<Rightarrow> string \<Rightarrow> config_error + Config" where
  "parseConfig ReadFile path =
     (case ReadFile path of
        Inl err \<Rightarrow> Inl (ReadFileError path err)
      | Inr buf \<Rightarrow>
          (case scan_tokens buf of
             (tokens, failed) \<Rightarrow>
               (case scan_entries tokens Map.empty of
                  Inl e \<Rightarrow> Inl e
                | Inr m \<Rightarrow>
                    if failed then Inl (ScanError path)
                    else
                      (case parse_channels (Split (lookup m ''channels'') CHR '','') [] of
                         Inl e \<Rightarrow> Inl e
                       | Inr chans \<Rightarrow>
                           if length chans = 0 then Inl NoChannels
                           else if lookup m ''nick'' = [] then Inl NoNick
                           else if lookup m ''server-host'' = [] then Inl NoServerHost
                           else
                             (case ParseInt (lookup m ''server-port'') of
                                None \<Rightarrow> Inl (InvalidPort (lookup m ''server-port''))
                              | Some p \<Rightarrow>
                                  Inr \<lparr>Channels = chans, Nick = lookup m ''nick'',
                                       ServerHost = lookup m ''server-host'',
                                       ServerPort = p\<rparr>)))))"

text \<open>
  What a token contributes to the map: its key and value when it is an entry, \<open>None\<close>
  when it is blank or a comment, and also when \<open>parseConfig\<close> rejects it.
\<close>

definition entry :: "string \<Rightarrow> (string \<times> string) option" where
  "entry line =
     (let text = TrimSpace line in
      if text = [] \<or> hd text = CHR ''#'' then None
      else if CHR ''='' \<notin> set text then None
      else
        let key = TrimSpace (takeWhile (\<lambda>c. c \<noteq> CHR ''='') text);
            val = TrimSpace (tl (dropWhile (\<lambda>c. c \<noteq> CHR ''='') text))
        in if key = [] then None else Some (key, val))"

text \<open>A token the loop passes over: blank, or a comment.\<close>

definition skipped :: "string \<Rightarrow> bool" where
  "skipped line = (TrimSpace line = [] \<or> hd (TrimSpace line) = CHR ''#'')"

text \<open>The tokens of a file when no line is too long for the scanner.\<close>

definition file_lines :: "string \<Rightarrow> string list" where
  "file_lines buf = map dropCR (raw_lines buf)"

text \<open>A file system with one file.\<close>

definition one_file :: "string \<Rightarrow> string \<Rightarrow> string \<Rightarrow> go_error + string" where
  "one_file name buf path = (if path = name then Inr buf else Inl (Err ''no such file''))"

section \<open>Sample inputs\<close>

definition example_conf :: Config where
  "example_conf =
     \<lparr>Channels = [''#a'', ''#b''], Nick = ''bot'', ServerHost = ''irc.example.com'',
      ServerPort = 6667\<rparr>"

definition sim_world :: "bool \<Rightarrow> time \<Rightarrow> (go_error + message) list \<Rightarrow> bool list \<Rightarrow> sim" where
  "sim_world u t i f = \<lparr>sim_up = u, sim_clock = t, sim_inbox = i, sim_failing = f\<rparr>"

definition welcome_msg :: message where
  "welcome_msg = \<lparr>Prefix = ''irc.example.com'', Command = ''001'', Params = [''bot'', ''Welcome'']\<rparr>"

definition notice_msg :: message where
  "notice_msg = \<lparr>Prefix = ''irc.example.com'', Command = ''NOTICE'', Params = [''*'', ''Looking up your hostname'']\<rparr>"


definition error_msg :: message where
  "error_msg = \<lparr>Prefix = ''irc.example.com'', Command = ''ERROR'', Params = [''Closing Link'']\<rparr>"



definition example_file :: string where
  "example_file =
     ''channels=#a,#b'' @ [CHR 0x0A] @ ''nick=bot'' @ [CHR 0x0A]
     @ ''server-host=irc.example.com'' @ [CHR 0x0A] @ ''server-port=6667'' @ [CHR 0x0A]"

section \<open>The simulated environment\<close>

lemma sim_env_simps [simp]:
  "IsConnected sim_env w = (sim_up w, w)"
  "Connect sim_env w = (case sim_call w of (r, w1) \<Rightarrow> (r, w1\<lparr>sim_up := (r = None)\<rparr>))"
  "Register sim_env = sim_call"
  "SetRegistered sim_env w = w"
  "ReadMessage sim_env = sim_read"
  "Join sim_env ch = sim_call"
  "Pong sim_env m = sim_call"
  "Message sim_env ch e = sim_call"
  "Close sim_env w = (None, w\<lparr>sim_up := False\<rparr>)"
  "Now sim_env w = (sim_clock w, w)"
  "Sleep sim_env d w = w\<lparr>sim_clock := sim_clock w + d\<rparr>"
  "LogPrint sim_env line w = w"
  "Sprintf sim_env format a = (case fmt_Sprintf sim_show format a of Some out \<Rightarrow> out | None \<Rightarrow> [])"
  "FormatRFC3339 sim_env t = ''2006-01-02T15:04:05Z''"
  by (simp_all add: sim_env_def)


section \<open>The traced environment\<close>

lemma traced_IsConnected [simp]:
  "IsConnected (traced env) (w, tr) =
     (case IsConnected env w of (r, w1) \<Rightarrow> (r, w1, tr @ [EIsConnected r]))"
  by (simp add: traced_def logged_def)

lemma traced_Connect [simp]:
  "Connect (traced env) (w, tr) =
     (case Connect env w of (r, w1) \<Rightarrow> (r, w1, tr @ [EConnect r]))"
  by (simp add: traced_def logged_def)

lemma traced_Register [simp]:
  "Register (traced env) (w, tr) =
     (case Register env w of (r, w1) \<Rightarrow> (r, w1, tr @ [ERegister r]))"
  by (simp add: traced_def logged_def)

lemma traced_SetRegistered [simp]:
  "SetRegistered (traced env) (w, tr) = (SetRegistered env w, tr @ [ESetRegistered])"
  by (simp add: traced_def)

lemma traced_ReadMessage [simp]:
  "ReadMessage (traced env) (w, tr) =
     (case ReadMessage env w of (r, w1) \<Rightarrow> (r, w1, tr @ [ERead r]))"
  by (simp add: traced_def logged_def)

lemma traced_Join [simp]:
  "Join (traced env) ch (w, tr) =
     (case Join env ch w of (r, w1) \<Rightarrow> (r, w1, tr @ [EJoin ch r]))"
  by (simp add: traced_def logged_def)

lemma traced_Pong [simp]:
  "Pong (traced env) m (w, tr) =
     (case Pong env m w of (r, w1) \<Rightarrow> (r, w1, tr @ [EPong m r]))"
  by (simp add: traced_def logged_def)

lemma traced_Message [simp]:
  "Message (traced env) ch e (w, tr) =
     (case Message env ch e w of (r, w1) \<Rightarrow> (r, w1, tr @ [EMessage ch e r]))"
  by (simp add: traced_def logged_def)

lemma traced_Close [simp]:
  "Close (traced env) (w, tr) =
     (case Close env w of (r, w1) \<Rightarrow> (r, w1, tr @ [EClose r]))"
  by (simp add: traced_def logged_def)

lemma traced_Now [simp]:
  "Now (traced env) (w, tr) = (case Now env w of (t, w1) \<Rightarrow> (t, w1, tr @ [ENow t]))"
  by (simp add: traced_def logged_def)

lemma traced_Sleep [simp]:
  "Sleep (traced env) d (w, tr) = (Sleep env d w, tr @ [ESleep d])"
  by (simp add: traced_def)

lemma traced_LogPrint [simp]:
  "LogPrint (traced env) m (w, tr) = (LogPrint env m w, tr @ [ELog m])"
  by (simp add: traced_def)

lemma traced_Sprintf [simp]: "Sprintf (traced env) = Sprintf env"
  by (simp add: traced_def)

lemma traced_FormatRFC3339 [simp]: "FormatRFC3339 (traced env) = FormatRFC3339 env"
  by (simp add: traced_def)

lemma deliveries_append [simp]: "deliveries (xs @ ys) = deliveries xs @ deliveries ys"
  by (induction xs rule: deliveries.induct) simp_all

section \<open>Flushing the error log\<close>

text \<open>
  The inner loop on the traced environment: the calls it adds to the trace, the result on
  the environment itself, and the log it leaves.
\<close>

lemma sendErrors_trace:
  "sendErrors (traced env) ch i es s (w, tr0) = (r, s', w', tr) \<Longrightarrow>
   \<exists>evs. tr = tr0 @ evs \<and> sendErrors env ch i es s w = (r, s', w') \<and>
     (case r of
        None \<Rightarrow> deliveries evs = delivered ch es \<and> errors s' = errors s
      | Some err \<Rightarrow>
          (\<exists>j<length es. deliveries evs = delivered ch (take j es) @ [(ch, es ! j, Some err)]
              \<and> errors s' = drop (i + j) (errors s)))"
proof (induction es arbitrary: i s w tr0)
  case Nil
  then show ?case by (simp add: delivered_def)
next
  case (Cons e es)
  obtain r1 w1 where m: "Message env ch e w = (r1, w1)" by (cases "Message env ch e w")
  show ?case
  proof (cases r1)
    case (Some err)
    with Cons.prems m show ?thesis
      by (auto simp: delivered_def intro!: exI[of _ 0])
  next
    case None
    obtain t w2 where n: "Now env w1 = (t, w2)" by (cases "Now env w1")
    from Cons.prems m None n
    have "sendErrors (traced env) ch (Suc i) es (s\<lparr>lastActivityTime := t\<rparr>)
            (w2, tr0 @ [EMessage ch e None] @ [ENow t]) = (r, s', w', tr)"
      by simp
    from Cons.IH[OF this] obtain evs where
      evs: "tr = (tr0 @ [EMessage ch e None] @ [ENow t]) @ evs"
        "sendErrors env ch (Suc i) es (s\<lparr>lastActivityTime := t\<rparr>) w2 = (r, s', w')"
        "(case r of
            None \<Rightarrow> deliveries evs = delivered ch es \<and> errors s' = errors (s\<lparr>lastActivityTime := t\<rparr>)
          | Some err \<Rightarrow>
            (\<exists>j<length es. deliveries evs = delivered ch (take j es) @ [(ch, es ! j, Some err)]
              \<and> errors s' = drop (Suc i + j) (errors (s\<lparr>lastActivityTime := t\<rparr>))))"
      by blast
    let ?evs = "[EMessage ch e None, ENow t] @ evs"
    have 1: "tr = tr0 @ ?evs" using evs(1) by simp
    have 2: "sendErrors env ch i (e # es) s w = (r, s', w')" using evs(2) m None n by simp
    have 3: "(case r of
        None \<Rightarrow> deliveries ?evs = delivered ch (e # es) \<and> errors s' = errors s
      | Some err \<Rightarrow>
          (\<exists>j<length (e # es). deliveries ?evs = delivered ch (take j (e # es)) @ [(ch, (e # es) ! j, Some err)]
              \<and> errors s' = drop (i + j) (errors s)))"
    proof (cases r)
      case None
      with evs(3) show ?thesis by (simp add: delivered_def)
    next
      case (Some err)
      with evs(3) obtain j where j: "j < length es"
        "deliveries evs = delivered ch (take j es) @ [(ch, es ! j, Some err)]"
        "errors s' = drop (Suc i + j) (errors s)" by auto
      then have "Suc j < length (e # es) \<and> deliveries ?evs = delivered ch (take (Suc j) (e # es)) @ [(ch, (e # es) ! (Suc j), Some err)]
              \<and> errors s' = drop (i + Suc j) (errors s)"
        by (simp add: delivered_def)
      then show ?thesis unfolding Some option.case by blast
    qed
    from 1 2 3 show ?thesis by blast
  qed
qed


lemma sendChannels_trace:
  "sendChannels (traced env) chs s (w, tr0) = (r, s', w', tr) \<Longrightarrow>
   \<exists>evs. tr = tr0 @ evs \<and> sendChannels env chs s w = (r, s', w') \<and>
     (case r of
        None \<Rightarrow> deliveries evs = concat (map (\<lambda>c. delivered c (errors s)) chs) \<and> errors s' = []
      | Some err \<Rightarrow>
          (\<exists>pre ch post k. chs = pre @ ch # post \<and> k < length (errors s) \<and>
             deliveries evs = concat (map (\<lambda>c. delivered c (errors s)) pre)
                 @ delivered ch (take k (errors s)) @ [(ch, errors s ! k, Some err)] \<and>
             errors s' = drop k (errors s)))"
proof (induction chs arbitrary: s w tr0)
  case Nil
  then show ?case by auto
next
  case (Cons c chs)
  obtain r1 s1 w1 tr1 where inner: "sendErrors (traced env) c 0 (errors s) s (w, tr0) = (r1, s1, w1, tr1)"
    by (metis prod_cases4)
  from sendErrors_trace[OF inner] obtain evs1 where
    e1: "tr1 = tr0 @ evs1" "sendErrors env c 0 (errors s) s w = (r1, s1, w1)"
    and c1: "(case r1 of
        None \<Rightarrow> deliveries evs1 = delivered c (errors s) \<and> errors s1 = errors s
      | Some err \<Rightarrow>
          (\<exists>j<length (errors s). deliveries evs1 = delivered c (take j (errors s)) @ [(c, errors s ! j, Some err)]
              \<and> errors s1 = drop (0 + j) (errors s)))"
    by blast
  show ?case
  proof (cases r1)
    case (Some err)
    with Cons.prems inner have eq: "r = Some err" "s' = s1" "w' = w1" "tr = tr1" by simp_all
    from c1 Some obtain j where j: "j < length (errors s)"
      "deliveries evs1 = delivered c (take j (errors s)) @ [(c, errors s ! j, Some err)]"
      "errors s1 = drop j (errors s)" by auto
    have "c # chs = [] @ c # chs \<and> j < length (errors s) \<and>
             deliveries evs1 = concat (map (\<lambda>c. delivered c (errors s)) [])
                 @ delivered c (take j (errors s)) @ [(c, errors s ! j, Some err)] \<and>
             errors s1 = drop j (errors s)"
      using j by simp
    then have "\<exists>pre ch post k. c # chs = pre @ ch # post \<and> k < length (errors s) \<and>
             deliveries evs1 = concat (map (\<lambda>c. delivered c (errors s)) pre)
                 @ delivered ch (take k (errors s)) @ [(ch, errors s ! k, Some err)] \<and>
             errors s1 = drop k (errors s)"
      by blast
    moreover have "sendChannels env (c # chs) s w = (Some err, s1, w1)"
      using e1(2) Some by simp
    ultimately show ?thesis unfolding eq option.case using e1(1) by blast
  next
    case None
    with c1 have d1: "deliveries evs1 = delivered c (errors s)" and es1: "errors s1 = errors s"
      by simp_all
    from Cons.prems inner None
    have "sendChannels (traced env) chs s1 (w1, tr1) = (r, s', w', tr)" by simp
    from Cons.IH[OF this] obtain evs where
      e2: "tr = tr1 @ evs" "sendChannels env chs s1 w1 = (r, s', w')"
      and c2: "(case r of
          None \<Rightarrow> deliveries evs = concat (map (\<lambda>c. delivered c (errors s1)) chs) \<and> errors s' = []
        | Some err \<Rightarrow>
          (\<exists>pre ch post k. chs = pre @ ch # post \<and> k < length (errors s1) \<and>
             deliveries evs = concat (map (\<lambda>c. delivered c (errors s1)) pre)
                 @ delivered ch (take k (errors s1)) @ [(ch, errors s1 ! k, Some err)] \<and>
             errors s' = drop k (errors s1)))"
      by blast
    have 1: "tr = tr0 @ (evs1 @ evs)" using e1(1) e2(1) by simp
    have 2: "sendChannels env (c # chs) s w = (r, s', w')" using e1(2) e2(2) None by simp
    have 3: "(case r of
        None \<Rightarrow> deliveries (evs1 @ evs) = concat (map (\<lambda>c. delivered c (errors s)) (c # chs)) \<and> errors s' = []
      | Some err \<Rightarrow>
          (\<exists>pre ch post k. c # chs = pre @ ch # post \<and> k < length (errors s) \<and>
             deliveries (evs1 @ evs) = concat (map (\<lambda>c. delivered c (errors s)) pre)
                 @ delivered ch (take k (errors s)) @ [(ch, errors s ! k, Some err)] \<and>
             errors s' = drop k (errors s)))"
    proof (cases r)
      case None
      with c2 d1 es1 show ?thesis by simp
    next
      case (Some err)
      with c2 es1 obtain pre ch post k where p: "chs = pre @ ch # post" "k < length (errors s)"
        "deliveries evs = concat (map (\<lambda>c. delivered c (errors s)) pre)
                 @ delivered ch (take k (errors s)) @ [(ch, errors s ! k, Some err)]"
        "errors s' = drop k (errors s)" by auto
      have "c # chs = (c # pre) @ ch # post \<and> k < length (errors s) \<and>
             deliveries (evs1 @ evs) = concat (map (\<lambda>c. delivered c (errors s)) (c # pre))
                 @ delivered ch (take k (errors s)) @ [(ch, errors s ! k, Some err)] \<and>
             errors s' = drop k (errors s)"
        using p d1 by simp
      then show ?thesis unfolding Some option.case by blast
    qed
    from 1 2 3 show ?thesis by blast
  qed
qed


lemma sendMessages_trace:
  assumes "sendMessages (traced env) conf s (w, []) = (r, s', w', tr)"
  shows "sendMessages env conf s w = (r, s', w')"
    and "r = None \<Longrightarrow>
           deliveries tr = concat (map (\<lambda>c. delivered c (errors s)) (Channels conf)) \<and> errors s' = []"
    and "r = Some err \<Longrightarrow>
           \<exists>pre ch post k. Channels conf = pre @ ch # post \<and> k < length (errors s) \<and>
             deliveries tr = concat (map (\<lambda>c. delivered c (errors s)) pre)
                 @ delivered ch (take k (errors s)) @ [(ch, errors s ! k, Some err)] \<and>
             errors s' = drop k (errors s)"
proof -
  from assms have "sendChannels (traced env) (Channels conf) s (w, []) = (r, s', w', tr)"
    by (simp add: sendMessages_def)
  from sendChannels_trace[OF this] obtain evs where
    e: "tr = [] @ evs" "sendChannels env (Channels conf) s w = (r, s', w')"
    and c: "(case r of
        None \<Rightarrow> deliveries evs = concat (map (\<lambda>c. delivered c (errors s)) (Channels conf)) \<and> errors s' = []
      | Some err \<Rightarrow>
          (\<exists>pre ch post k. Channels conf = pre @ ch # post \<and> k < length (errors s) \<and>
             deliveries evs = concat (map (\<lambda>c. delivered c (errors s)) pre)
                 @ delivered ch (take k (errors s)) @ [(ch, errors s ! k, Some err)] \<and>
             errors s' = drop k (errors s)))"
    by blast
  show "sendMessages env conf s w = (r, s', w')" using e(2) by (simp add: sendMessages_def)
  show "r = None \<Longrightarrow>
           deliveries tr = concat (map (\<lambda>c. delivered c (errors s)) (Channels conf)) \<and> errors s' = []"
    using c e(1) by simp
  show "r = Some err \<Longrightarrow>
           \<exists>pre ch post k. Channels conf = pre @ ch # post \<and> k < length (errors s) \<and>
             deliveries tr = concat (map (\<lambda>c. delivered c (errors s)) pre)
                 @ delivered ch (take k (errors s)) @ [(ch, errors s ! k, Some err)] \<and>
             errors s' = drop k (errors s)"
    using c e(1) by simp
qed

lemma delivered_outcome: "d \<in> set (delivered ch es) \<Longrightarrow> snd (snd d) = None"
  by (auto simp: delivered_def)

text \<open>
  C1. Flushing a log of \<open>N\<close> entries: when the delivery of entry \<open>k\<close> fails (to whichever
  channel, after every earlier delivery succeeded), the log left is the entries from \<open>k\<close>
  on, in order, and the error of that delivery is what \<open>sendMessages\<close> returns; when no
  delivery fails, every entry has gone to every channel and the log left is empty.
\<close>

theorem sendMessages_flush:
  assumes "sendMessages (traced env) conf s (w, []) = (r, s', w', tr)"
  shows "(\<forall>err. r = Some err \<longrightarrow>
            (\<exists>pre ch post k. Channels conf = pre @ ch # post \<and> k < length (errors s) \<and>
               deliveries tr = concat (map (\<lambda>c. delivered c (errors s)) pre)
                   @ delivered ch (take k (errors s)) @ [(ch, errors s ! k, Some err)] \<and>
               errors s' = drop k (errors s)))
       \<and> (r = None \<longrightarrow>
            deliveries tr = concat (map (\<lambda>c. delivered c (errors s)) (Channels conf)) \<and>
            errors s' = [])
       \<and> ((\<forall>d \<in> set (deliveries tr). snd (snd d) = None) \<longrightarrow> r = None \<and> errors s' = [])
       \<and> sendMessages env conf s w = (r, s', w')"
proof -
  note t = sendMessages_trace[OF assms]
  have "(\<forall>d \<in> set (deliveries tr). snd (snd d) = None) \<longrightarrow> r = None \<and> errors s' = []"
  proof (cases r)
    case None
    with t(2) show ?thesis by simp
  next
    case (Some err)
    from t(3)[OF Some] obtain pre ch post k where
      "deliveries tr = concat (map (\<lambda>c. delivered c (errors s)) pre)
                 @ delivered ch (take k (errors s)) @ [(ch, errors s ! k, Some err)]"
      by blast
    then have "(ch, errors s ! k, Some err) \<in> set (deliveries tr)" by simp
    then show ?thesis by force
  qed
  with t show ?thesis by blast
qed

theorem sendMessages_flush_witness:
  "sendMessages (traced sim_env) example_conf \<lparr>lastActivityTime = 0, errors = [''e0'', ''e1'', ''e2'']\<rparr>
          (sim_world True 100 [] [False, False, False, False, True], []) =
        (Some (Err ''refused''), \<lparr>lastActivityTime = 100, errors = [''e1'', ''e2'']\<rparr>,
         sim_world True 100 [] [],
         [EMessage ''#a'' ''e0'' None, ENow 100, EMessage ''#a'' ''e1'' None, ENow 100,
          EMessage ''#a'' ''e2'' None, ENow 100, EMessage ''#b'' ''e0'' None, ENow 100,
          EMessage ''#b'' ''e1'' (Some (Err ''refused''))])
   \<and> sendMessages sim_env example_conf \<lparr>lastActivityTime = 0, errors = [''e0'', ''e1'', ''e2'']\<rparr>
          (sim_world True 100 [] [False, False, False, False, True]) =
        (Some (Err ''refused''), \<lparr>lastActivityTime = 100, errors = [''e1'', ''e2'']\<rparr>,
         sim_world True 100 [] [])"
proof -
  have h: "sendMessages (traced sim_env) example_conf \<lparr>lastActivityTime = 0, errors = [''e0'', ''e1'', ''e2'']\<rparr>
          (sim_world True 100 [] [False, False, False, False, True], []) =
        (Some (Err ''refused''), \<lparr>lastActivityTime = 100, errors = [''e1'', ''e2'']\<rparr>,
         sim_world True 100 [] [],
         [EMessage ''#a'' ''e0'' None, ENow 100, EMessage ''#a'' ''e1'' None, ENow 100,
          EMessage ''#a'' ''e2'' None, ENow 100, EMessage ''#b'' ''e0'' None, ENow 100,
          EMessage ''#b'' ''e1'' (Some (Err ''refused''))])"
    by (simp add: sendMessages_def example_conf_def sim_world_def sim_call_def)
  from sendMessages_flush[OF h] h show ?thesis by blast
qed


section \<open>Giving up\<close>

lemma time_Sub_waitPeriod: "(waitPeriod < time_Sub t u) = (900000000000 < t - u)"
  by (simp add: time_Sub_def waitPeriod_def Minute_def Second_def maxDuration_def
      minDuration_def Let_def)

text \<open>
  C2. \<open>shouldGiveUp\<close> is true exactly when the time since \<open>lastActivityTime\<close>, read on
  the clock at the call, is more than 15 minutes (in nanoseconds): false when the two
  instants are equal, false at 15 minutes exactly, true at 16 minutes.
\<close>

theorem shouldGiveUp_threshold:
  "fst (shouldGiveUp env s w) = (15 * 60 * 1000000000 < fst (Now env w) - lastActivityTime s)
   \<and> fst (shouldGiveUp env (s\<lparr>lastActivityTime := fst (Now env w)\<rparr>) w) = False
   \<and> fst (shouldGiveUp env (s\<lparr>lastActivityTime := fst (Now env w) - 15 * Minute\<rparr>) w) = False
   \<and> fst (shouldGiveUp env (s\<lparr>lastActivityTime := fst (Now env w) - 16 * Minute\<rparr>) w) = True
   \<and> waitPeriod = 15 * 60 * 1000000000"
proof -
  have elapsed: "fst (shouldGiveUp env s' w) = (900000000000 < fst (Now env w) - lastActivityTime s')"
    for s'
    by (simp add: shouldGiveUp_def time_Sub_waitPeriod split: prod.split)
  show ?thesis
    by (simp add: elapsed Minute_def Second_def waitPeriod_def)
qed

section \<open>Recording errors and giving up, on the traced environment\<close>

lemma addError_eq:
  "addError env format args s w =
     (case Now env w of (t, w1) \<Rightarrow>
        (s\<lparr>errors := errors s @ [error_entry env t format args]\<rparr>,
         LogPrint env (error_entry env t format args) w1))"
  by (simp add: addError_def error_entry_def Let_def split: prod.split)

lemma error_entry_traced [simp]: "error_entry (traced env) = error_entry env"
  by (simp add: error_entry_def fun_eq_iff)

lemma addError_traced:
  "addError (traced env) format args s (w, tr) =
     (case Now env w of (t, w1) \<Rightarrow>
        (s\<lparr>errors := errors s @ [error_entry env t format args]\<rparr>,
         LogPrint env (error_entry env t format args) w1,
         tr @ [ENow t, ELog (error_entry env t format args)]))"
  by (simp add: addError_eq split: prod.split)






lemma length_delivered_all:
  "length (concat (map (\<lambda>c. delivered c es) cs)) = length cs * length es"
  by (induction cs) (simp_all add: delivered_def)

lemma position_unique:
  fixes a b i k n :: nat
  assumes "a * n + i = b * n + k" "i < n" "k < n"
  shows "i = k"
proof -
  have "(a * n + i) mod n = i" using assms(2) by simp
  moreover have "(b * n + k) mod n = k" using assms(3) by simp
  ultimately show ?thesis using assms(1) by metis
qed

text \<open>
  C9. A flush that fails at entry \<open>i\<close> while sending to a channel that is not the first
  (every channel of \<open>pre\<close> has had the whole log, \<open>ch\<close> has had the entries before
  \<open>i\<close>): the entries before \<open>i\<close> leave the log although no channel after \<open>ch\<close> has
  had a delivery; and a later flush that completes, on the log left and whatever has been
  appended to it since, sends every one of those entries to every channel, the channels
  of \<open>pre\<close> included.
\<close>

theorem partial_flush_resends:
  assumes chans: "Channels conf = pre @ ch # post" and notfirst: "pre \<noteq> []"
    and i: "i < length (errors s)"
    and run: "sendMessages (traced env) conf s (w, []) = (r, s', w', tr)"
    and obs: "deliveries tr = concat (map (\<lambda>c. delivered c (errors s)) pre)
                @ delivered ch (take i (errors s)) @ [(ch, errors s ! i, Some err)]"
  shows "r = Some err \<and> errors s' = drop i (errors s)
       \<and> (\<forall>d \<in> set (deliveries tr). fst d \<in> set pre \<or> fst d = ch)
       \<and> (\<forall>env2 s2 w2 s2' w2' tr2 new.
             errors s2 = errors s' @ new \<and>
             sendMessages (traced env2) conf s2 (w2, []) = (None, s2', w2', tr2) \<longrightarrow>
             deliveries tr2 = concat (map (\<lambda>c. delivered c (drop i (errors s) @ new)) (pre @ ch # post)))"
proof -
  have failed: "(ch, errors s ! i, Some err) \<in> set (deliveries tr)" using obs by simp
  have "r \<noteq> None"
  proof
    assume "r = None"
    from sendMessages_trace(2)[OF run this]
    have "deliveries tr = concat (map (\<lambda>c. delivered c (errors s)) (Channels conf))" by simp
    with failed show False by (auto simp: delivered_def)
  qed
  then obtain err2 where r: "r = Some err2" by auto
  from sendMessages_trace(3)[OF run r] obtain pre2 ch2 post2 k where
    k: "k < length (errors s)"
    and d2: "deliveries tr = concat (map (\<lambda>c. delivered c (errors s)) pre2)
                 @ delivered ch2 (take k (errors s)) @ [(ch2, errors s ! k, Some err2)]"
    and left: "errors s' = drop k (errors s)"
    by blast
  from obs d2 have "err2 = err" by simp
  have "length (deliveries tr) = length pre * length (errors s) + i + 1"
    unfolding obs using i by (simp add: length_delivered_all) (simp add: delivered_def)
  moreover have "length (deliveries tr) = length pre2 * length (errors s) + k + 1"
    unfolding d2 using k by (simp add: length_delivered_all) (simp add: delivered_def)
  ultimately have "length pre * length (errors s) + i = length pre2 * length (errors s) + k"
    by simp
  from position_unique[OF this i k] have ik: "i = k" .
  have only: "\<forall>d \<in> set (deliveries tr). fst d \<in> set pre \<or> fst d = ch"
    unfolding obs by (auto simp: delivered_def)
  have again: "deliveries tr2 = concat (map (\<lambda>c. delivered c (drop i (errors s) @ new)) (pre @ ch # post))"
    if "errors s2 = errors s' @ new"
      and "sendMessages (traced env2) conf s2 (w2, []) = (None, s2', w2', tr2)"
    for env2 :: "'b env" and s2 w2 s2' w2' tr2 new
    using sendMessages_trace(2)[OF that(2)] that(1) left ik chans by simp
  from r \<open>err2 = err\<close> left ik only again show ?thesis by blast
qed


theorem partial_flush_resends_witness:
  "Channels (example_conf\<lparr>Channels := [''#a'', ''#b'', ''#c'']\<rparr>) = [''#a''] @ ''#b'' # [''#c'']
   \<and> [''#a''] \<noteq> ([] :: string list)
   \<and> (1 :: nat) < length (errors \<lparr>lastActivityTime = 0, errors = [''e0'', ''e1'', ''e2'']\<rparr>)
   \<and> errors (fst (snd (sendMessages (traced sim_env)
          (example_conf\<lparr>Channels := [''#a'', ''#b'', ''#c'']\<rparr>)
          \<lparr>lastActivityTime = 0, errors = [''e0'', ''e1'', ''e2'']\<rparr>
          (sim_world True 100 [] [False, False, False, False, True], [])))) = [''e1'', ''e2'']"
proof -
  let ?conf = "example_conf\<lparr>Channels := [''#a'', ''#b'', ''#c'']\<rparr>"
  let ?s = "\<lparr>lastActivityTime = 0, errors = [''e0'', ''e1'', ''e2'']\<rparr>"
  let ?tr = "[EMessage ''#a'' ''e0'' None, ENow 100, EMessage ''#a'' ''e1'' None, ENow 100,
          EMessage ''#a'' ''e2'' None, ENow 100, EMessage ''#b'' ''e0'' None, ENow 100,
          EMessage ''#b'' ''e1'' (Some (Err ''refused''))]"
  have chans: "Channels ?conf = [''#a''] @ ''#b'' # [''#c'']" by simp
  have notfirst: "[''#a''] \<noteq> ([] :: string list)" by simp
  have i: "(1 :: nat) < length (errors ?s)" by simp
  have run: "sendMessages (traced sim_env) ?conf ?s
          (sim_world True 100 [] [False, False, False, False, True], []) =
        (Some (Err ''refused''), \<lparr>lastActivityTime = 100, errors = [''e1'', ''e2'']\<rparr>,
         sim_world True 100 [] [], ?tr)"
    by (simp add: sendMessages_def example_conf_def sim_world_def sim_call_def)
  have obs: "deliveries ?tr = concat (map (\<lambda>c. delivered c (errors ?s)) [''#a''])
                @ delivered ''#b'' (take 1 (errors ?s))
                @ [(''#b'', errors ?s ! 1, Some (Err ''refused''))]"
    by (simp add: delivered_def)
  from partial_flush_resends[OF chans notfirst i run obs]
  have "errors \<lparr>lastActivityTime = 100, errors = [''e1'', ''e2'']\<rparr> = drop 1 (errors ?s)"
    by blast
  with chans notfirst i run show ?thesis by simp
qed

section \<open>The contract of connect\<close>

lemma connect_join_trace:
  "connect_join (traced env) chs (w, tr0) = (r, w', tr) \<Longrightarrow>
   connect_join env chs w = (r, w') \<and>
   ((r = None \<and> tr = tr0 @ joins chs) \<or>
    (\<exists>k err. k < length chs \<and> r = Some (join_error env (chs ! k) err) \<and>
        tr = tr0 @ joins (take k chs) @ [EJoin (chs ! k) (Some err)]))"
proof (induction chs arbitrary: w tr0)
  case Nil
  then show ?case by (simp add: joins_def)
next
  case (Cons c chs)
  obtain j w1 where j: "Join env c w = (j, w1)" by (cases "Join env c w")
  show ?case
  proof (cases j)
    case (Some err)
    with Cons.prems j have "r = Some (join_error env c err)" "w' = w1" "tr = tr0 @ [EJoin c (Some err)]"
      by (simp_all add: join_error_def)
    then have "0 < length (c # chs) \<and> r = Some (join_error env ((c # chs) ! 0) err) \<and>
        tr = tr0 @ joins (take 0 (c # chs)) @ [EJoin ((c # chs) ! 0) (Some err)]"
      by (simp add: joins_def)
    moreover have "connect_join env (c # chs) w = (r, w')"
      using j Some \<open>r = Some (join_error env c err)\<close> \<open>w' = w1\<close> by (simp add: join_error_def)
    ultimately show ?thesis by blast
  next
    case None
    with Cons.prems j have "connect_join (traced env) chs (w1, tr0 @ [EJoin c None]) = (r, w', tr)"
      by simp
    from Cons.IH[OF this] have sim: "connect_join env chs w1 = (r, w')"
      and cases: "(r = None \<and> tr = (tr0 @ [EJoin c None]) @ joins chs) \<or>
        (\<exists>k err. k < length chs \<and> r = Some (join_error env (chs ! k) err) \<and>
            tr = (tr0 @ [EJoin c None]) @ joins (take k chs) @ [EJoin (chs ! k) (Some err)])"
      by blast+
    have 1: "connect_join env (c # chs) w = (r, w')" using sim j None by simp
    from cases show ?thesis
    proof
      assume "r = None \<and> tr = (tr0 @ [EJoin c None]) @ joins chs"
      then have "r = None \<and> tr = tr0 @ joins (c # chs)" by (simp add: joins_def)
      with 1 show ?thesis by blast
    next
      assume "\<exists>k err. k < length chs \<and> r = Some (join_error env (chs ! k) err) \<and>
            tr = (tr0 @ [EJoin c None]) @ joins (take k chs) @ [EJoin (chs ! k) (Some err)]"
      then obtain k err where "k < length chs" "r = Some (join_error env (chs ! k) err)"
        "tr = (tr0 @ [EJoin c None]) @ joins (take k chs) @ [EJoin (chs ! k) (Some err)]" by blast
      then have "Suc k < length (c # chs) \<and> r = Some (join_error env ((c # chs) ! Suc k) err) \<and>
        tr = tr0 @ joins (take (Suc k) (c # chs)) @ [EJoin ((c # chs) ! Suc k) (Some err)]"
        by (simp add: joins_def)
      with 1 show ?thesis by blast
    qed
  qed
qed



lemma connect_loop_step:
  assumes IH: "\<And>c wt y. f (traced env) c wt = Some y \<Longrightarrow>
                 (\<forall>w tr0 r w' tr. wt = (w, tr0) \<longrightarrow> y = (r, w', tr) \<longrightarrow>
                    (\<exists>ms evs. list_all ordinary ms \<and> tr = tr0 @ reads ms @ evs \<and> loop_end env c r evs))"
    and body: "(case ReadMessage (traced env) (w, tr0) of
        (Inl err, w1) \<Rightarrow> Some (Some err, w1)
      | (Inr m, w1) \<Rightarrow>
          if Command m = ReplyWelcome then
            Some (connect_join (traced env) (Channels conf) (SetRegistered (traced env) w1))
          else if Command m = ''ERROR'' then
            Some (Some (Err (Sprintf (traced env) ''received ERROR: %s'' [VMessage m])), w1)
          else f (traced env) conf w1) = Some (r, w', tr)"
  shows "\<exists>ms evs. list_all ordinary ms \<and> tr = tr0 @ reads ms @ evs \<and> loop_end env conf r evs"
proof -
  have nil: "list_all ordinary []" by simp
  obtain rd w1 where rd: "ReadMessage env w = (rd, w1)" by (cases "ReadMessage env w")
  show ?thesis
  proof (cases rd)
    case (Inl err)
    with body rd have "r = Some err" "tr = tr0 @ reads [] @ [ERead (Inl err)]"
      by (simp_all add: reads_def)
    moreover have "loop_end env conf (Some err) [ERead (Inl err)]" by (simp add: loop_end_def)
    ultimately show ?thesis using nil by blast
  next
    case (Inr m)
    consider (greeted) "Command m = ReplyWelcome"
      | (error) "Command m \<noteq> ReplyWelcome" "Command m = ''ERROR''"
      | (other) "ordinary m" unfolding ordinary_def by blast
    then show ?thesis
    proof cases
      case greeted
      with body rd Inr have
        "connect_join (traced env) (Channels conf) (SetRegistered env w1, tr0 @ [ERead (Inr m), ESetRegistered])
           = (r, w', tr)" by simp
      from connect_join_trace[OF this]
      have "(r = None \<and> tr = (tr0 @ [ERead (Inr m), ESetRegistered]) @ joins (Channels conf)) \<or>
        (\<exists>k err. k < length (Channels conf) \<and> r = Some (join_error env (Channels conf ! k) err) \<and>
          tr = (tr0 @ [ERead (Inr m), ESetRegistered]) @ joins (take k (Channels conf))
               @ [EJoin (Channels conf ! k) (Some err)])" by blast
      then show ?thesis
      proof
        assume a: "r = None \<and> tr = (tr0 @ [ERead (Inr m), ESetRegistered]) @ joins (Channels conf)"
        let ?evs = "[ERead (Inr m), ESetRegistered] @ joins (Channels conf)"
        have "tr = tr0 @ reads [] @ ?evs" using a by (simp add: reads_def)
        moreover have "loop_end env conf r ?evs"
          unfolding loop_end_def using a greeted by blast
        ultimately show ?thesis using nil by blast
      next
        assume "\<exists>k err. k < length (Channels conf) \<and> r = Some (join_error env (Channels conf ! k) err) \<and>
          tr = (tr0 @ [ERead (Inr m), ESetRegistered]) @ joins (take k (Channels conf))
               @ [EJoin (Channels conf ! k) (Some err)]"
        then obtain k err where k: "k < length (Channels conf)"
          "r = Some (join_error env (Channels conf ! k) err)"
          "tr = (tr0 @ [ERead (Inr m), ESetRegistered]) @ joins (take k (Channels conf))
               @ [EJoin (Channels conf ! k) (Some err)]" by blast
        let ?evs = "[ERead (Inr m), ESetRegistered] @ joins (take k (Channels conf))
               @ [EJoin (Channels conf ! k) (Some err)]"
        have "tr = tr0 @ reads [] @ ?evs" using k(3) by (simp add: reads_def)
        moreover have "loop_end env conf r ?evs"
          unfolding loop_end_def using k(1,2) greeted by blast
        ultimately show ?thesis using nil by blast
      qed
    next
      case error
      with body rd Inr have "r = Some (Err (Sprintf env ''received ERROR: %s'' [VMessage m]))"
        "tr = tr0 @ reads [] @ [ERead (Inr m)]" by (simp_all add: reads_def)
      moreover have "loop_end env conf (Some (Err (Sprintf env ''received ERROR: %s'' [VMessage m])))
          [ERead (Inr m)]" using error by (auto simp: loop_end_def)
      ultimately show ?thesis using nil by blast
    next
      case other
      with body rd Inr have "f (traced env) conf (w1, tr0 @ [ERead (Inr m)]) = Some (r, w', tr)"
        by (simp add: ordinary_def)
      from IH[OF this] obtain ms evs where
        "list_all ordinary ms" "tr = (tr0 @ [ERead (Inr m)]) @ reads ms @ evs" "loop_end env conf r evs"
        by blast
      then have "list_all ordinary (m # ms)" "tr = tr0 @ reads (m # ms) @ evs"
        using other by (simp_all add: reads_def)
      with \<open>loop_end env conf r evs\<close> show ?thesis by blast
    qed
  qed
qed

lemma connect_loop_trace:
  assumes "connect_loop (traced env) conf (w, tr0) = Some (r, w', tr)"
  shows "\<exists>ms evs. list_all ordinary ms \<and> tr = tr0 @ reads ms @ evs \<and> loop_end env conf r evs"
proof -
  let ?P = "\<lambda>(e :: ('a \<times> event list) env) c wt y.
       \<forall>env w tr0 r w' tr. e = traced env \<longrightarrow> wt = (w, tr0) \<longrightarrow> y = (r, w', tr) \<longrightarrow>
          (\<exists>ms evs. list_all ordinary ms \<and> tr = tr0 @ reads ms @ evs \<and> loop_end env c r evs)"
  have "?P (traced env) conf (w, tr0) (r, w', tr)"
  proof (rule connect_loop.raw_induct[where P = ?P, OF _ assms])
    fix f and e :: "('a \<times> event list) env" and c wt y
    assume IH: "\<And>e c wt y. f e c wt = Some y \<Longrightarrow> ?P e c wt y"
      and body: "(case ReadMessage e wt of
        (Inl err, w1) \<Rightarrow> Some (Some err, w1)
      | (Inr m, w1) \<Rightarrow>
          if Command m = ReplyWelcome then
            Some (connect_join e (Channels c) (SetRegistered e w1))
          else if Command m = ''ERROR'' then
            Some (Some (Err (Sprintf e ''received ERROR: %s'' [VMessage m])), w1)
          else f e c w1) = Some y"
    show "?P e c wt y"
    proof (intro allI impI)
      fix env :: "'a env" and w tr0 r w' tr
      assume e: "e = traced env" and wt: "wt = (w, tr0)" and y: "y = (r, w', tr)"
      have IH': "\<And>c wt y. f (traced env) c wt = Some y \<Longrightarrow>
                 (\<forall>w tr0 r w' tr. wt = (w, tr0) \<longrightarrow> y = (r, w', tr) \<longrightarrow>
                    (\<exists>ms evs. list_all ordinary ms \<and> tr = tr0 @ reads ms @ evs \<and> loop_end env c r evs))"
        using IH by blast
      show "\<exists>ms evs. list_all ordinary ms \<and> tr = tr0 @ reads ms @ evs \<and> loop_end env c r evs"
        using IH' body[unfolded e wt y] by (rule connect_loop_step[where f = f])
    qed
  qed
  then show ?thesis by blast
qed

lemma ordinary_reads_loop:
  "ordinary_reads env ms w = Some w1 \<Longrightarrow> connect_loop env conf w = connect_loop env conf w1"
proof (induction ms arbitrary: w)
  case Nil
  then show ?case by simp
next
  case (Cons m ms)
  obtain rd w2 where rd: "ReadMessage env w = (rd, w2)" by (cases "ReadMessage env w")
  with Cons.prems have m: "rd = Inr m" "ordinary m" "ordinary_reads env ms w2 = Some w1"
    by (auto split: sum.splits if_splits)
  have "connect_loop env conf w = connect_loop env conf w2"
    using rd m(1,2) by (subst connect_loop.simps) (simp add: ordinary_def)
  with Cons.IH[OF m(3)] show ?case by simp
qed


lemma connect_trace:
  assumes "connect (traced env) conf (w, tr0) = Some (r, w', tr)"
  shows "(\<exists>err. r = Some err \<and> tr = tr0 @ [EConnect (Some err)])
       \<or> (\<exists>err. r = Some err \<and> tr = tr0 @ [EConnect None, ERegister (Some err)])
       \<or> (\<exists>ms evs. list_all ordinary ms \<and>
             tr = tr0 @ [EConnect None, ERegister None] @ reads ms @ evs \<and>
             loop_end env conf r evs)"
proof -
  obtain c w1 where c: "Connect env w = (c, w1)" by (cases "Connect env w")
  show ?thesis
  proof (cases c)
    case (Some err)
    with assms c show ?thesis by (auto simp: connect_def)
  next
    case None
    obtain g w2 where g: "Register env w1 = (g, w2)" by (cases "Register env w1")
    show ?thesis
    proof (cases g)
      case (Some err)
      with assms c None g show ?thesis by (auto simp: connect_def)
    next
      case None' : None
      with assms c None g
      have "connect_loop (traced env) conf (w2, tr0 @ [EConnect None, ERegister None]) = Some (r, w', tr)"
        by (simp add: connect_def)
      from connect_loop_trace[OF this] show ?thesis by auto
    qed
  qed
qed


text \<open>
  C3. When \<open>connect\<close> returns, either it returns \<open>nil\<close> and its calls were
  \<open>Connect\<close>, \<open>Register\<close>, reads up to a welcome reply, \<open>SetRegistered\<close> and then one
  successful join for each configured channel, in the order of the list; or it returns
  an error and its calls end at the call that failed: \<open>Connect\<close>, \<open>Register\<close>, a read,
  the read of an \<open>ERROR\<close>, or the first join that fails, after which no join follows.
  And it does return when the reads, after any number of other messages, come to a
  failed read (with that error), to an \<open>ERROR\<close> (with an error), or to a welcome reply
  (with the outcome of the joins).
\<close>

theorem connect_contract:
  "(\<forall>r w' tr. connect (traced env) conf (w, []) = Some (r, w', tr) \<longrightarrow>
      (r = None \<and>
         (\<exists>ms m. list_all ordinary ms \<and> Command m = ReplyWelcome \<and>
            tr = [EConnect None, ERegister None] @ reads ms
                 @ [ERead (Inr m), ESetRegistered] @ joins (Channels conf)))
    \<or> (\<exists>err. r = Some err \<and>
         (tr = [EConnect (Some err)]
        \<or> tr = [EConnect None, ERegister (Some err)]
        \<or> (\<exists>ms. list_all ordinary ms \<and>
              tr = [EConnect None, ERegister None] @ reads ms @ [ERead (Inl err)])
        \<or> (\<exists>ms m. list_all ordinary ms \<and> Command m = ''ERROR'' \<and>
              tr = [EConnect None, ERegister None] @ reads ms @ [ERead (Inr m)])
        \<or> (\<exists>ms m k je. list_all ordinary ms \<and> Command m = ReplyWelcome \<and>
              k < length (Channels conf) \<and> err = join_error env (Channels conf ! k) je \<and>
              tr = [EConnect None, ERegister None] @ reads ms
                   @ [ERead (Inr m), ESetRegistered] @ joins (take k (Channels conf))
                   @ [EJoin (Channels conf ! k) (Some je)]))))
 \<and> (\<forall>w1 w2 ms w3 rd w4.
      Connect env w = (None, w1) \<and> Register env w1 = (None, w2) \<and>
      ordinary_reads env ms w2 = Some w3 \<and> ReadMessage env w3 = (rd, w4) \<longrightarrow>
        (\<forall>err. rd = Inl err \<longrightarrow> connect env conf w = Some (Some err, w4))
      \<and> (\<forall>m. rd = Inr m \<and> Command m = ''ERROR'' \<longrightarrow>
            connect env conf w
              = Some (Some (Err (Sprintf env ''received ERROR: %s'' [VMessage m])), w4))
      \<and> (\<forall>m. rd = Inr m \<and> Command m = ReplyWelcome \<longrightarrow>
            connect env conf w = Some (connect_join env (Channels conf) (SetRegistered env w4))))"
proof (intro conjI allI impI)
  fix r w' tr
  assume run: "connect (traced env) conf (w, []) = Some (r, w', tr)"
  from connect_trace[OF run, simplified]
  consider (c) err where "r = Some err" "tr = [EConnect (Some err)]"
    | (g) err where "r = Some err" "tr = [EConnect None, ERegister (Some err)]"
    | (l) ms evs where "list_all ordinary ms" "tr = [EConnect None, ERegister None] @ reads ms @ evs"
        "loop_end env conf r evs"
    by auto
  then show "(r = None \<and>
         (\<exists>ms m. list_all ordinary ms \<and> Command m = ReplyWelcome \<and>
            tr = [EConnect None, ERegister None] @ reads ms
                 @ [ERead (Inr m), ESetRegistered] @ joins (Channels conf)))
    \<or> (\<exists>err. r = Some err \<and>
         (tr = [EConnect (Some err)]
        \<or> tr = [EConnect None, ERegister (Some err)]
        \<or> (\<exists>ms. list_all ordinary ms \<and>
              tr = [EConnect None, ERegister None] @ reads ms @ [ERead (Inl err)])
        \<or> (\<exists>ms m. list_all ordinary ms \<and> Command m = ''ERROR'' \<and>
              tr = [EConnect None, ERegister None] @ reads ms @ [ERead (Inr m)])
        \<or> (\<exists>ms m k je. list_all ordinary ms \<and> Command m = ReplyWelcome \<and>
              k < length (Channels conf) \<and> err = join_error env (Channels conf ! k) je \<and>
              tr = [EConnect None, ERegister None] @ reads ms
                   @ [ERead (Inr m), ESetRegistered] @ joins (take k (Channels conf))
                   @ [EJoin (Channels conf ! k) (Some je)])))"
  proof cases
    case c
    then show ?thesis by blast
  next
    case g
    then show ?thesis by blast
  next
    case l
    from l(3) show ?thesis unfolding loop_end_def l(2)
      apply (elim disjE exE conjE)
      subgoal using l(1) by blast
      subgoal using l(1) by blast
      subgoal using l(1) by blast
      subgoal using l(1) by blast
      done
  qed
next
  fix w1 w2 ms w3 rd w4 err
  assume a: "Connect env w = (None, w1) \<and> Register env w1 = (None, w2) \<and>
      ordinary_reads env ms w2 = Some w3 \<and> ReadMessage env w3 = (rd, w4)" and rd: "rd = Inl err"
  then have "connect env conf w = connect_loop env conf w3"
    using ordinary_reads_loop[of env ms w2 w3 conf] by (simp add: connect_def)
  also have "\<dots> = Some (Some err, w4)"
    using a rd by (subst connect_loop.simps) simp
  finally show "connect env conf w = Some (Some err, w4)" .
next
  fix w1 w2 ms w3 rd w4 m
  assume a: "Connect env w = (None, w1) \<and> Register env w1 = (None, w2) \<and>
      ordinary_reads env ms w2 = Some w3 \<and> ReadMessage env w3 = (rd, w4)"
    and rd: "rd = Inr m \<and> Command m = ''ERROR''"
  then have "connect env conf w = connect_loop env conf w3"
    using ordinary_reads_loop[of env ms w2 w3 conf] by (simp add: connect_def)
  also have "\<dots> = Some (Some (Err (Sprintf env ''received ERROR: %s'' [VMessage m])), w4)"
    using a rd by (subst connect_loop.simps) (simp add: ReplyWelcome_def)
  finally show "connect env conf w
      = Some (Some (Err (Sprintf env ''received ERROR: %s'' [VMessage m])), w4)" .
next
  fix w1 w2 ms w3 rd w4 m
  assume a: "Connect env w = (None, w1) \<and> Register env w1 = (None, w2) \<and>
      ordinary_reads env ms w2 = Some w3 \<and> ReadMessage env w3 = (rd, w4)"
    and rd: "rd = Inr m \<and> Command m = ReplyWelcome"
  then have "connect env conf w = connect_loop env conf w3"
    using ordinary_reads_loop[of env ms w2 w3 conf] by (simp add: connect_def)
  also have "\<dots> = Some (connect_join env (Channels conf) (SetRegistered env w4))"
    using a rd by (subst connect_loop.simps) simp
  finally show "connect env conf w
      = Some (connect_join env (Channels conf) (SetRegistered env w4))" .
qed


theorem connect_contract_witness:
  "connect (traced sim_env) example_conf
       (sim_world False 0 [Inr notice_msg, Inr welcome_msg] [False, False, False, True], [])
     = Some (Some (Err ''error joining channel: #b: refused''), sim_world True 0 [] [],
         [EConnect None, ERegister None, ERead (Inr notice_msg), ERead (Inr welcome_msg),
          ESetRegistered, EJoin ''#a'' None, EJoin ''#b'' (Some (Err ''refused''))])
   \<and> Connect sim_env (sim_world False 0 [Inr notice_msg, Inr welcome_msg] [])
       = (None, sim_world True 0 [Inr notice_msg, Inr welcome_msg] [])
   \<and> Register sim_env (sim_world True 0 [Inr notice_msg, Inr welcome_msg] [])
       = (None, sim_world True 0 [Inr notice_msg, Inr welcome_msg] [])
   \<and> ordinary_reads sim_env [notice_msg] (sim_world True 0 [Inr notice_msg, Inr welcome_msg] [])
       = Some (sim_world True 0 [Inr welcome_msg] [])
   \<and> ReadMessage sim_env (sim_world True 0 [Inr welcome_msg] [])
       = (Inr welcome_msg, sim_world True 0 [] [])
   \<and> connect sim_env example_conf (sim_world False 0 [Inr notice_msg, Inr welcome_msg] [])
       = Some (None, sim_world True 0 [] [])"
proof -
  have run: "connect (traced sim_env) example_conf
       (sim_world False 0 [Inr notice_msg, Inr welcome_msg] [False, False, False, True], [])
     = Some (Some (Err ''error joining channel: #b: refused''), sim_world True 0 [] [],
         [EConnect None, ERegister None, ERead (Inr notice_msg), ERead (Inr welcome_msg),
          ESetRegistered, EJoin ''#a'' None, EJoin ''#b'' (Some (Err ''refused''))])"
    by (simp add: connect_def connect_loop.simps sim_world_def sim_call_def sim_read_def
        example_conf_def welcome_msg_def notice_msg_def ReplyWelcome_def fmt_Sprintf_def)
  have c: "Connect sim_env (sim_world False 0 [Inr notice_msg, Inr welcome_msg] [])
       = (None, sim_world True 0 [Inr notice_msg, Inr welcome_msg] [])"
    by (simp add: sim_world_def sim_call_def)
  have g: "Register sim_env (sim_world True 0 [Inr notice_msg, Inr welcome_msg] [])
       = (None, sim_world True 0 [Inr notice_msg, Inr welcome_msg] [])"
    by (simp add: sim_world_def sim_call_def)
  have o: "ordinary_reads sim_env [notice_msg] (sim_world True 0 [Inr notice_msg, Inr welcome_msg] [])
       = Some (sim_world True 0 [Inr welcome_msg] [])"
    by (simp add: sim_world_def sim_read_def ordinary_def notice_msg_def ReplyWelcome_def)
  have rd: "ReadMessage sim_env (sim_world True 0 [Inr welcome_msg] [])
       = (Inr welcome_msg, sim_world True 0 [] [])"
    by (simp add: sim_world_def sim_read_def)
  have w: "Command welcome_msg = ReplyWelcome"
    by (simp add: welcome_msg_def ReplyWelcome_def)
  from connect_contract[of sim_env example_conf
      "sim_world False 0 [Inr notice_msg, Inr welcome_msg] []"] c g o rd w
  have "connect sim_env example_conf (sim_world False 0 [Inr notice_msg, Inr welcome_msg] [])
       = Some (connect_join sim_env (Channels example_conf)
            (SetRegistered sim_env (sim_world True 0 [] [])))"
    by blast
  then have "connect sim_env example_conf (sim_world False 0 [Inr notice_msg, Inr welcome_msg] [])
       = Some (None, sim_world True 0 [] [])"
    by (simp add: example_conf_def sim_world_def sim_call_def)
  with run c g o rd show ?thesis by simp
qed


section \<open>One pass of the main loop\<close>

text \<open>
  C7. A pass on a connected client whose read returns a message. If the command is
  \<open>ERROR\<close>, the pass stamps the activity time, appends the entry for the message to
  the error log, closes the connection, and the loop goes on to its next pass. If the
  command is neither \<open>ERROR\<close> nor \<open>PING\<close>, the pass makes no call after the clock
  read that follows the read (no \<open>Close\<close>, \<open>Pong\<close> or \<open>Message\<close>), changes nothing of
  the state but the activity time, and the loop goes on to its next pass.
\<close>

theorem run_body_other_commands:
  assumes up: "IsConnected env (Sleep env Second w) = (True, w1)"
    and rd: "ReadMessage env w1 = (Inr m, w2)"
    and now: "Now env w2 = (t, w3)"
    and stamp: "Now env w3 = (ts, w4)"
    and close: "Close env (LogPrint env (error_entry env ts ''got ERROR: %s'' [VMessage m]) w4) = (r, w5)"
  shows "(Command m = ''ERROR'' \<longrightarrow>
            run_body (traced env) conf s (w, []) =
              Some (s\<lparr>lastActivityTime := t,
                       errors := errors s @ [error_entry env ts ''got ERROR: %s'' [VMessage m]]\<rparr>,
                    w5,
                    [ESleep Second, EIsConnected True, ERead (Inr m), ENow t, ENow ts,
                     ELog (error_entry env ts ''got ERROR: %s'' [VMessage m]), EClose r])
          \<and> run_steps env conf (Suc n) s w =
              run_steps env conf n
                (s\<lparr>lastActivityTime := t,
                   errors := errors s @ [error_entry env ts ''got ERROR: %s'' [VMessage m]]\<rparr>) w5)
       \<and> (Command m \<noteq> ''ERROR'' \<and> Command m \<noteq> ''PING'' \<longrightarrow>
            run_body (traced env) conf s (w, []) =
              Some (s\<lparr>lastActivityTime := t\<rparr>, w3,
                    [ESleep Second, EIsConnected True, ERead (Inr m), ENow t])
          \<and> run_steps env conf (Suc n) s w = run_steps env conf n (s\<lparr>lastActivityTime := t\<rparr>) w3)"
  using assms
  by (simp add: run_body_def run_connected_def addError_traced addError_eq)

theorem run_body_other_commands_witness:
  "IsConnected sim_env (Sleep sim_env Second (sim_world True 0 [Inr error_msg] []))
     = (True, sim_world True 1000000000 [Inr error_msg] [])
   \<and> ReadMessage sim_env (sim_world True 1000000000 [Inr error_msg] [])
     = (Inr error_msg, sim_world True 1000000000 [] [])
   \<and> Now sim_env (sim_world True 1000000000 [] []) = (1000000000, sim_world True 1000000000 [] [])
   \<and> Close sim_env (LogPrint sim_env
         (error_entry sim_env 1000000000 ''got ERROR: %s'' [VMessage error_msg])
         (sim_world True 1000000000 [] []))
     = (None, sim_world False 1000000000 [] [])
   \<and> Command error_msg = ''ERROR''
   \<and> run_body (traced sim_env) example_conf initial_state (sim_world True 0 [Inr error_msg] [], [])
     = Some (\<lparr>lastActivityTime = 1000000000, errors = [''2006-01-02T15:04:05Z: got ERROR: ERROR'']\<rparr>,
             sim_world False 1000000000 [] [],
             [ESleep 1000000000, EIsConnected True, ERead (Inr error_msg), ENow 1000000000,
              ENow 1000000000, ELog ''2006-01-02T15:04:05Z: got ERROR: ERROR'', EClose None])"
proof -
  have up: "IsConnected sim_env (Sleep sim_env Second (sim_world True 0 [Inr error_msg] []))
     = (True, sim_world True 1000000000 [Inr error_msg] [])"
    by (simp add: sim_world_def Second_def)
  have rd: "ReadMessage sim_env (sim_world True 1000000000 [Inr error_msg] [])
     = (Inr error_msg, sim_world True 1000000000 [] [])"
    by (simp add: sim_world_def sim_read_def)
  have now: "Now sim_env (sim_world True 1000000000 [] []) = (1000000000, sim_world True 1000000000 [] [])"
    by (simp add: sim_world_def)
  have close: "Close sim_env (LogPrint sim_env
         (error_entry sim_env 1000000000 ''got ERROR: %s'' [VMessage error_msg])
         (sim_world True 1000000000 [] []))
     = (None, sim_world False 1000000000 [] [])"
    by (simp add: sim_world_def)
  have cmd: "Command error_msg = ''ERROR''" by (simp add: error_msg_def)
  have entry: "error_entry sim_env 1000000000 ''got ERROR: %s'' [VMessage error_msg]
      = ''2006-01-02T15:04:05Z: got ERROR: ERROR''"
    by (simp add: error_entry_def fmt_Sprintf_def error_msg_def)
  from run_body_other_commands[OF up rd now now close, of example_conf initial_state 0] cmd
  have "run_body (traced sim_env) example_conf initial_state (sim_world True 0 [Inr error_msg] [], [])
     = Some (initial_state\<lparr>lastActivityTime := 1000000000,
                errors := errors initial_state
                  @ [error_entry sim_env 1000000000 ''got ERROR: %s'' [VMessage error_msg]]\<rparr>,
             sim_world False 1000000000 [] [],
             [ESleep Second, EIsConnected True, ERead (Inr error_msg), ENow 1000000000,
              ENow 1000000000,
              ELog (error_entry sim_env 1000000000 ''got ERROR: %s'' [VMessage error_msg]),
              EClose None])"
    by blast
  then have "run_body (traced sim_env) example_conf initial_state (sim_world True 0 [Inr error_msg] [], [])
     = Some (\<lparr>lastActivityTime = 1000000000, errors = [''2006-01-02T15:04:05Z: got ERROR: ERROR'']\<rparr>,
             sim_world False 1000000000 [] [],
             [ESleep 1000000000, EIsConnected True, ERead (Inr error_msg), ENow 1000000000,
              ENow 1000000000, ELog ''2006-01-02T15:04:05Z: got ERROR: ERROR'', EClose None])"
    by (simp add: entry initial_state_def Second_def)
  with up rd now close cmd show ?thesis by blast
qed






section \<open>The activity time\<close>








section \<open>The configuration file\<close>

lemma scan_entries_skipped:
  "skipped line \<Longrightarrow> scan_entries (line # lines) m = scan_entries lines m"
  by (simp add: skipped_def Let_def)

lemma scan_entries_entry:
  "entry line = Some (k, v) \<Longrightarrow>
   scan_entries (line # lines) m =
     (if m k \<noteq> None then Inl (DuplicateKey k) else scan_entries lines (m(k \<mapsto> v)))"
  by (auto simp: entry_def SplitN2_def Let_def split: if_splits)

lemma scan_entries_rejected:
  "\<not> skipped line \<Longrightarrow> entry line = None \<Longrightarrow> isl (scan_entries (line # lines) m)"
  by (auto simp: entry_def skipped_def SplitN2_def Let_def split: if_splits)

declare scan_entries.simps(2) [simp del]

lemma scan_entries_Inr:
  "scan_entries lines m = Inr m' \<Longrightarrow>
     (\<forall>k v. m k = Some v \<longrightarrow> m' k = Some v)
   \<and> (\<forall>line \<in> set lines. \<forall>k v. entry line = Some (k, v) \<longrightarrow> m' k = Some v \<and> m k = None)
   \<and> (\<forall>k v. m' k = Some v \<longrightarrow> m k = Some v \<or> (\<exists>line \<in> set lines. entry line = Some (k, v)))"
proof (induction lines arbitrary: m)
  case Nil
  then show ?case by simp
next
  case (Cons line lines)
  show ?case
  proof (cases "skipped line")
    case True
    then have none: "entry line = None" by (simp add: entry_def skipped_def)
    from Cons.prems True have "scan_entries lines m = Inr m'" by (simp add: scan_entries_skipped)
    from Cons.IH[OF this] none show ?thesis by auto
  next
    case False
    show ?thesis
    proof (cases "entry line")
      case None
      from scan_entries_rejected[OF False None, of lines m] Cons.prems show ?thesis by simp
    next
      case (Some kv)
      obtain k v where kv: "kv = (k, v)" by (cases kv)
      with Some have e: "entry line = Some (k, v)" by simp
      from Cons.prems scan_entries_entry[OF e, of lines m]
      have fresh: "m k = None" and rest: "scan_entries lines (m(k \<mapsto> v)) = Inr m'"
        by (auto split: if_splits)
      from Cons.IH[OF rest] have
        1: "\<And>k' v'. (m(k \<mapsto> v)) k' = Some v' \<Longrightarrow> m' k' = Some v'"
        and 2: "\<And>l k' v'. l \<in> set lines \<Longrightarrow> entry l = Some (k', v') \<Longrightarrow> m' k' = Some v' \<and> (m(k \<mapsto> v)) k' = None"
        and 3: "\<And>k' v'. m' k' = Some v' \<Longrightarrow> (m(k \<mapsto> v)) k' = Some v' \<or> (\<exists>l \<in> set lines. entry l = Some (k', v'))"
        by blast+
      have a: "\<forall>k' v'. m k' = Some v' \<longrightarrow> m' k' = Some v'"
        using 1 fresh by (metis fun_upd_apply option.distinct(1))
      have b: "\<forall>l \<in> set (line # lines). \<forall>k' v'. entry l = Some (k', v') \<longrightarrow> m' k' = Some v' \<and> m k' = None"
      proof (intro ballI allI impI)
        fix l k' v' assume l: "l \<in> set (line # lines)" and el: "entry l = Some (k', v')"
        show "m' k' = Some v' \<and> m k' = None"
        proof (cases "l = line")
          case True
          with el e have "k' = k" "v' = v" by simp_all
          with 1[of k v] fresh show ?thesis by simp
        next
          case False
          with l have "l \<in> set lines" by simp
          from 2[OF this el] show ?thesis by (auto split: if_splits)
        qed
      qed
      have c: "\<forall>k' v'. m' k' = Some v' \<longrightarrow> m k' = Some v' \<or> (\<exists>l \<in> set (line # lines). entry l = Some (k', v'))"
      proof (intro allI impI)
        fix k' v' assume "m' k' = Some v'"
        from 3[OF this] show "m k' = Some v' \<or> (\<exists>l \<in> set (line # lines). entry l = Some (k', v'))"
          using e by (auto split: if_splits)
      qed
      from a b c show ?thesis by blast
    qed
  qed
qed

lemma scan_entries_append:
  "scan_entries (pre @ rest) m = Inr m' \<Longrightarrow>
   \<exists>m1. scan_entries pre m = Inr m1 \<and> scan_entries rest m1 = Inr m'"
proof (induction pre arbitrary: m)
  case Nil
  then show ?case by simp
next
  case (Cons line pre)
  show ?case
  proof (cases "skipped line")
    case True
    with Cons show ?thesis by (simp add: scan_entries_skipped)
  next
    case False
    show ?thesis
    proof (cases "entry line")
      case None
      from scan_entries_rejected[OF False None, of "pre @ rest" m] Cons.prems show ?thesis by simp
    next
      case (Some kv)
      obtain k v where "kv = (k, v)" by (cases kv)
      with Some have e: "entry line = Some (k, v)" by simp
      from Cons.prems scan_entries_entry[OF e, of "pre @ rest" m]
      have fresh: "m k = None" and rest: "scan_entries (pre @ rest) (m(k \<mapsto> v)) = Inr m'"
        by (auto split: if_splits)
      from Cons.IH[OF rest] obtain m1 where
        "scan_entries pre (m(k \<mapsto> v)) = Inr m1" "scan_entries rest m1 = Inr m'" by blast
      then show ?thesis using scan_entries_entry[OF e, of pre m] fresh by simp
    qed
  qed
qed

lemma scan_entries_duplicate:
  assumes "i < j" "j < length lines"
    and "entry (lines ! i) = Some (k, v1)" "entry (lines ! j) = Some (k, v2)"
  shows "isl (scan_entries lines m)"
proof (rule ccontr)
  assume "\<not> isl (scan_entries lines m)"
  then obtain m' where ok: "scan_entries lines m = Inr m'" by (cases "scan_entries lines m") auto
  have split: "lines = take j lines @ (lines ! j) # drop (Suc j) lines"
    using assms(2) by (simp add: id_take_nth_drop)
  with ok have "scan_entries (take j lines @ (lines ! j) # drop (Suc j) lines) m = Inr m'" by simp
  from scan_entries_append[OF this] obtain m1 where
    1: "scan_entries (take j lines) m = Inr m1"
    and 2: "scan_entries ((lines ! j) # drop (Suc j) lines) m1 = Inr m'" by blast
  have "lines ! i \<in> set (take j lines)"
    using assms(1,2) by (metis in_set_conv_nth length_take min.absorb2 less_imp_le nth_take)
  with scan_entries_Inr[OF 1] assms(3) have "m1 k = Some v1" by blast
  with 2 scan_entries_entry[OF assms(4), of "drop (Suc j) lines" m1] show False by simp
qed

lemma parse_channels_Inr:
  "parse_channels items acc = Inr chans \<Longrightarrow>
   chans = acc @ filter (\<lambda>c. c \<noteq> []) (map TrimSpace items)
   \<and> (\<forall>c \<in> set (map TrimSpace items). c \<noteq> [] \<longrightarrow> hd c = CHR ''#'')"
proof (induction items arbitrary: acc)
  case Nil
  then show ?case by simp
next
  case (Cons c0 items)
  show ?case
  proof (cases "TrimSpace c0 = []")
    case True
    with Cons.prems have "parse_channels items acc = Inr chans" by simp
    from Cons.IH[OF this] True show ?thesis by simp
  next
    case False
    with Cons.prems have h: "hd (TrimSpace c0) = CHR ''#''"
      and "parse_channels items (acc @ [TrimSpace c0]) = Inr chans"
      by (auto simp: Let_def split: if_splits)
    from Cons.IH[OF this(2)] False h show ?thesis by simp
  qed
qed

lemma parse_channels_ok:
  "\<forall>c \<in> set (map TrimSpace items). c \<noteq> [] \<longrightarrow> hd c = CHR ''#'' \<Longrightarrow>
   parse_channels items acc = Inr (acc @ filter (\<lambda>c. c \<noteq> []) (map TrimSpace items))"
  by (induction items arbitrary: acc) (auto simp: Let_def)

lemma scan_tokens_fit:
  assumes "list_all fits (raw_lines buf)"
  shows "scan_tokens buf = (file_lines buf, False)"
proof -
  from assms have eq: "takeWhile fits (raw_lines buf) = raw_lines buf"
    by (simp add: takeWhile_eq_all_conv list_all_iff)
  show ?thesis unfolding scan_tokens_def file_lines_def eq using assms by simp
qed

lemma parseConfig_Inr:
  assumes "parseConfig ReadFile path = Inr conf"
  shows "\<exists>buf m. ReadFile path = Inr buf \<and> list_all fits (raw_lines buf)
      \<and> scan_entries (file_lines buf) Map.empty = Inr m
      \<and> parse_channels (Split (lookup m ''channels'') CHR '','') [] = Inr (Channels conf)
      \<and> Channels conf \<noteq> []
      \<and> Nick conf = lookup m ''nick'' \<and> Nick conf \<noteq> []
      \<and> ServerHost conf = lookup m ''server-host'' \<and> ServerHost conf \<noteq> []
      \<and> ParseInt (lookup m ''server-port'') = Some (ServerPort conf)"
proof -
  from assms obtain buf where buf: "ReadFile path = Inr buf"
    by (auto simp: parseConfig_def split: sum.splits)
  obtain tokens failed where st: "scan_tokens buf = (tokens, failed)" by (cases "scan_tokens buf")
  from assms buf st obtain m where m: "scan_entries tokens Map.empty = Inr m" and nf: "\<not> failed"
    by (auto simp: parseConfig_def split: sum.splits if_splits)
  from st nf have fit: "list_all fits (raw_lines buf)" by (simp add: scan_tokens_def)
  with st scan_tokens_fit have tok: "tokens = file_lines buf" by simp
  from assms buf st m nf show ?thesis
    unfolding tok using fit
    by (auto simp: parseConfig_def split: sum.splits if_splits option.splits)
qed


lemma scan_entries_from_empty:
  assumes "scan_entries lines Map.empty = Inr m"
  shows "m k = Some v \<longleftrightarrow> (\<exists>line \<in> set lines. entry line = Some (k, v))"
proof
  assume mk: "m k = Some v"
  from scan_entries_Inr[OF assms]
  have "m k = Some v \<longrightarrow> Map.empty k = Some v \<or> (\<exists>line \<in> set lines. entry line = Some (k, v))"
    by blast
  with mk show "\<exists>line \<in> set lines. entry line = Some (k, v)" by simp
next
  assume "\<exists>line \<in> set lines. entry line = Some (k, v)"
  then obtain line where l: "line \<in> set lines" "entry line = Some (k, v)" by blast
  from scan_entries_Inr[OF assms]
  have "\<forall>line \<in> set lines. \<forall>k v. entry line = Some (k, v) \<longrightarrow> m k = Some v \<and> Map.empty k = None"
    by blast
  with l show "m k = Some v" by blast
qed

lemma lookup_missing:
  assumes "scan_entries lines Map.empty = Inr m"
    and "\<forall>line \<in> set lines. \<forall>v. entry line = Some (k, v) \<longrightarrow> P v" and "P []"
  shows "P (lookup m k)"
proof (cases "m k")
  case None
  with assms(3) show ?thesis by (simp add: lookup_def)
next
  case (Some v)
  with scan_entries_from_empty[OF assms(1), of k v] obtain line where
    "line \<in> set lines" "entry line = Some (k, v)" by blast
  with assms(2) have "P v" by blast
  with Some show ?thesis by (simp add: lookup_def)
qed

lemma lookup_present:
  assumes "scan_entries lines Map.empty = Inr m"
    and "line \<in> set lines" "entry line = Some (k, v)"
  shows "lookup m k = v"
proof -
  from scan_entries_from_empty[OF assms(1), of k v] assms(2,3) have "m k = Some v" by blast
  then show ?thesis by (simp add: lookup_def)
qed

lemma not_Inr_isl: "(\<And>y. x = Inr y \<Longrightarrow> False) \<Longrightarrow> isl x"
  by (cases x) auto

lemma parseConfig_Inr_at:
  assumes "parseConfig ReadFile path = Inr conf" and "ReadFile path = Inr buf"
  obtains m where "scan_entries (file_lines buf) Map.empty = Inr m"
    and "parse_channels (Split (lookup m ''channels'') CHR '','') [] = Inr (Channels conf)"
    and "Channels conf \<noteq> []"
    and "lookup m ''nick'' \<noteq> []"
    and "lookup m ''server-host'' \<noteq> []"
    and "ParseInt (lookup m ''server-port'') = Some (ServerPort conf)"
proof -
  from parseConfig_Inr[OF assms(1)] obtain buf' m where
    b: "ReadFile path = Inr buf'"
    and m: "scan_entries (file_lines buf') Map.empty = Inr m"
      "parse_channels (Split (lookup m ''channels'') CHR '','') [] = Inr (Channels conf)"
      "Channels conf \<noteq> []"
      "Nick conf = lookup m ''nick''" "Nick conf \<noteq> []"
      "ServerHost conf = lookup m ''server-host''" "ServerHost conf \<noteq> []"
      "ParseInt (lookup m ''server-port'') = Some (ServerPort conf)"
    by blast
  from b assms(2) have "buf' = buf" by simp
  with m that show thesis by metis
qed

lemma rejects_duplicate:
  assumes rf: "ReadFile path = Inr buf"
    and d: "i < j" "j < length (file_lines buf)"
      "entry (file_lines buf ! i) = Some (k, v1)" "entry (file_lines buf ! j) = Some (k, v2)"
  shows "isl (parseConfig ReadFile path)"
proof (rule not_Inr_isl)
  fix conf assume "parseConfig ReadFile path = Inr conf"
  from parseConfig_Inr_at[OF this rf] obtain m where "scan_entries (file_lines buf) Map.empty = Inr m"
    by blast
  with scan_entries_duplicate[OF d, of Map.empty] show False by simp
qed

lemma rejects_nick:
  assumes rf: "ReadFile path = Inr buf"
    and a: "\<forall>line \<in> set (file_lines buf). \<forall>v. entry line = Some (''nick'', v) \<longrightarrow> v = []"
  shows "isl (parseConfig ReadFile path)"
proof (rule not_Inr_isl)
  fix conf assume "parseConfig ReadFile path = Inr conf"
  from parseConfig_Inr_at[OF this rf] obtain m where m: "scan_entries (file_lines buf) Map.empty = Inr m"
    and n: "lookup m ''nick'' \<noteq> []" by blast
  have "lookup m ''nick'' = []"
    by (rule lookup_missing[OF m, of "''nick''" "\<lambda>v. v = []", OF a refl])
  with n show False by simp
qed

lemma rejects_host:
  assumes rf: "ReadFile path = Inr buf"
    and a: "\<forall>line \<in> set (file_lines buf). \<forall>v. entry line = Some (''server-host'', v) \<longrightarrow> v = []"
  shows "isl (parseConfig ReadFile path)"
proof (rule not_Inr_isl)
  fix conf assume "parseConfig ReadFile path = Inr conf"
  from parseConfig_Inr_at[OF this rf] obtain m where m: "scan_entries (file_lines buf) Map.empty = Inr m"
    and n: "lookup m ''server-host'' \<noteq> []" by blast
  have "lookup m ''server-host'' = []"
    by (rule lookup_missing[OF m, of "''server-host''" "\<lambda>v. v = []", OF a refl])
  with n show False by simp
qed

lemma rejects_port:
  assumes rf: "ReadFile path = Inr buf"
    and a: "\<forall>line \<in> set (file_lines buf). \<forall>v. entry line = Some (''server-port'', v) \<longrightarrow>
              ParseInt v = None"
  shows "isl (parseConfig ReadFile path)"
proof (rule not_Inr_isl)
  fix conf assume "parseConfig ReadFile path = Inr conf"
  from parseConfig_Inr_at[OF this rf] obtain m where m: "scan_entries (file_lines buf) Map.empty = Inr m"
    and n: "ParseInt (lookup m ''server-port'') = Some (ServerPort conf)" by blast
  have base: "ParseInt [] = None" by (simp add: ParseInt_def)
  have "ParseInt (lookup m ''server-port'') = None"
    by (rule lookup_missing[OF m, of "''server-port''" "\<lambda>v. ParseInt v = None", OF a base])
  with n show False by simp
qed

lemma rejects_channel:
  assumes rf: "ReadFile path = Inr buf"
    and l: "line \<in> set (file_lines buf)" "entry line = Some (''channels'', v)"
    and i: "item \<in> set (Split v CHR '','')" "TrimSpace item \<noteq> []" "hd (TrimSpace item) \<noteq> CHR ''#''"
  shows "isl (parseConfig ReadFile path)"
proof (rule not_Inr_isl)
  fix conf assume "parseConfig ReadFile path = Inr conf"
  from parseConfig_Inr_at[OF this rf] obtain m where m: "scan_entries (file_lines buf) Map.empty = Inr m"
    and c: "parse_channels (Split (lookup m ''channels'') CHR '','') [] = Inr (Channels conf)"
    by blast
  from lookup_present[OF m l] have v: "lookup m ''channels'' = v" .
  from parse_channels_Inr[OF c[unfolded v]]
  have "\<forall>c \<in> set (map TrimSpace (Split v CHR '','')). c \<noteq> [] \<longrightarrow> hd c = CHR ''#''" by blast
  moreover have "TrimSpace item \<in> set (map TrimSpace (Split v CHR '',''))" using i(1) by simp
  ultimately show False using i(2,3) by blast
qed

lemma rejects_no_channels:
  assumes rf: "ReadFile path = Inr buf"
    and a: "\<forall>line \<in> set (file_lines buf). \<forall>v. entry line = Some (''channels'', v) \<longrightarrow>
              (\<forall>item \<in> set (Split v CHR '',''). TrimSpace item = [])"
  shows "isl (parseConfig ReadFile path)"
proof (rule not_Inr_isl)
  fix conf assume "parseConfig ReadFile path = Inr conf"
  from parseConfig_Inr_at[OF this rf] obtain m where m: "scan_entries (file_lines buf) Map.empty = Inr m"
    and c: "parse_channels (Split (lookup m ''channels'') CHR '','') [] = Inr (Channels conf)"
    and ne: "Channels conf \<noteq> []"
    by blast
  have base: "\<forall>item \<in> set (Split [] CHR '',''). TrimSpace item = []"
    by (simp add: TrimSpace_def)
  have "\<forall>item \<in> set (Split (lookup m ''channels'') CHR '',''). TrimSpace item = []"
    by (rule lookup_missing[OF m, of "''channels''"
          "\<lambda>v. \<forall>item \<in> set (Split v CHR '',''). TrimSpace item = []", OF a base])
  then have "filter (\<lambda>c. c \<noteq> []) (map TrimSpace (Split (lookup m ''channels'') CHR '','')) = []"
    by (simp add: filter_empty_conv)
  with parse_channels_Inr[OF c] ne show False by simp
qed


lemmas lines_eval = scan_tokens_def raw_lines_def fits_def MaxScanTokenSize_def dropCR_def
  file_lines_def

lemmas parse_eval = TrimSpace_def asciiSpace_def space_tail1_def space_tail2_def SplitN2_def
  lookup_def ParseInt_def ParseUint_def isDigit_def decimal_def Let_def scan_entries.simps(2)
  entry_def

lemma example_file_tokens:
  "scan_tokens example_file =
     ([''channels=#a,#b'', ''nick=bot'', ''server-host=irc.example.com'', ''server-port=6667''],
      False)"
  by (simp add: lines_eval example_file_def)

text \<open>
  C8. \<open>parseConfig\<close> accepts the file with \<open>channels=#a,#b\<close>, \<open>nick=bot\<close>,
  \<open>server-host=irc.example.com\<close> and \<open>server-port=6667\<close>, and the channels of the
  result are \<open>#a\<close> then \<open>#b\<close>. It returns an error for every file in which two lines
  are entries with the same key; in which no line gives \<open>nick\<close> a value that is not
  empty; in which an item of the channel list, blank items aside (the loop skips them),
  does not start with \<open>#\<close>; in which the channel list has no item that is not blank; in
  which no line gives \<open>server-host\<close> a value that is not empty; and in which no line
  gives \<open>server-port\<close> a value \<open>strconv.ParseInt\<close> accepts.
\<close>

theorem parseConfig_accepts_and_rejects:
  "parseConfig (one_file path example_file) path
     = Inr \<lparr>Channels = [''#a'', ''#b''], Nick = ''bot'', ServerHost = ''irc.example.com'',
            ServerPort = 6667\<rparr>
   \<and> (ReadFile path = Inr buf \<longrightarrow>
        ((\<exists>i j k v1 v2. i < j \<and> j < length (file_lines buf) \<and>
             entry (file_lines buf ! i) = Some (k, v1) \<and>
             entry (file_lines buf ! j) = Some (k, v2)) \<longrightarrow>
           isl (parseConfig ReadFile path))
      \<and> ((\<forall>line \<in> set (file_lines buf). \<forall>v. entry line = Some (''nick'', v) \<longrightarrow> v = []) \<longrightarrow>
           isl (parseConfig ReadFile path))
      \<and> ((\<exists>line \<in> set (file_lines buf). \<exists>v. entry line = Some (''channels'', v) \<and>
              (\<exists>item \<in> set (Split v CHR '',''). TrimSpace item \<noteq> [] \<and>
                   hd (TrimSpace item) \<noteq> CHR ''#'')) \<longrightarrow>
           isl (parseConfig ReadFile path))
      \<and> ((\<forall>line \<in> set (file_lines buf). \<forall>v. entry line = Some (''channels'', v) \<longrightarrow>
              (\<forall>item \<in> set (Split v CHR '',''). TrimSpace item = [])) \<longrightarrow>
           isl (parseConfig ReadFile path))
      \<and> ((\<forall>line \<in> set (file_lines buf). \<forall>v. entry line = Some (''server-host'', v) \<longrightarrow> v = []) \<longrightarrow>
           isl (parseConfig ReadFile path))
      \<and> ((\<forall>line \<in> set (file_lines buf). \<forall>v. entry line = Some (''server-port'', v) \<longrightarrow>
              ParseInt v = None) \<longrightarrow>
           isl (parseConfig ReadFile path)))"
proof (intro conjI impI)
  show "parseConfig (one_file path example_file) path
     = Inr \<lparr>Channels = [''#a'', ''#b''], Nick = ''bot'', ServerHost = ''irc.example.com'',
            ServerPort = 6667\<rparr>"
    by (simp add: parseConfig_def one_file_def example_file_tokens parse_eval)
next
  assume rf: "ReadFile path = Inr buf"
    and "\<exists>i j k v1 v2. i < j \<and> j < length (file_lines buf) \<and>
             entry (file_lines buf ! i) = Some (k, v1) \<and>
             entry (file_lines buf ! j) = Some (k, v2)"
  then obtain i j k v1 v2 where "i < j" "j < length (file_lines buf)"
      "entry (file_lines buf ! i) = Some (k, v1)" "entry (file_lines buf ! j) = Some (k, v2)"
    by blast
  with rf show "isl (parseConfig ReadFile path)" by (rule rejects_duplicate)
next
  assume "ReadFile path = Inr buf"
    and "\<forall>line \<in> set (file_lines buf). \<forall>v. entry line = Some (''nick'', v) \<longrightarrow> v = []"
  then show "isl (parseConfig ReadFile path)" by (rule rejects_nick)
next
  assume rf: "ReadFile path = Inr buf"
    and "\<exists>line \<in> set (file_lines buf). \<exists>v. entry line = Some (''channels'', v) \<and>
              (\<exists>item \<in> set (Split v CHR '',''). TrimSpace item \<noteq> [] \<and>
                   hd (TrimSpace item) \<noteq> CHR ''#'')"
  then obtain line v item where "line \<in> set (file_lines buf)" "entry line = Some (''channels'', v)"
      "item \<in> set (Split v CHR '','')" "TrimSpace item \<noteq> []" "hd (TrimSpace item) \<noteq> CHR ''#''"
    by blast
  with rf show "isl (parseConfig ReadFile path)" by (rule rejects_channel)
next
  assume "ReadFile path = Inr buf"
    and "\<forall>line \<in> set (file_lines buf). \<forall>v. entry line = Some (''channels'', v) \<longrightarrow>
              (\<forall>item \<in> set (Split v CHR '',''). TrimSpace item = [])"
  then show "isl (parseConfig ReadFile path)" by (rule rejects_no_channels)
next
  assume "ReadFile path = Inr buf"
    and "\<forall>line \<in> set (file_lines buf). \<forall>v. entry line = Some (''server-host'', v) \<longrightarrow> v = []"
  then show "isl (parseConfig ReadFile path)" by (rule rejects_host)
next
  assume "ReadFile path = Inr buf"
    and "\<forall>line \<in> set (file_lines buf). \<forall>v. entry line = Some (''server-port'', v) \<longrightarrow>
              ParseInt v = None"
  then show "isl (parseConfig ReadFile path)" by (rule rejects_port)
qed


theorem parseConfig_accepts_and_rejects_witness:
  "entry (file_lines (''nick=a'' @ [CHR 0x0A] @ ''nick=b'' @ [CHR 0x0A]) ! 0) = Some (''nick'', ''a'')
   \<and> entry (file_lines (''nick=a'' @ [CHR 0x0A] @ ''nick=b'' @ [CHR 0x0A]) ! 1) = Some (''nick'', ''b'')
   \<and> isl (parseConfig (one_file ''f'' (''nick=a'' @ [CHR 0x0A] @ ''nick=b'' @ [CHR 0x0A])) ''f'')
   \<and> file_lines (''channels=#a'' @ [CHR 0x0A] @ ''nick='' @ [CHR 0x0A]) = [''channels=#a'', ''nick='']
   \<and> entry ''nick='' = Some (''nick'', [])
   \<and> isl (parseConfig (one_file ''f'' (''channels=#a'' @ [CHR 0x0A] @ ''nick='' @ [CHR 0x0A])) ''f'')
   \<and> entry ''channels=#a, b'' = Some (''channels'', ''#a, b'')
   \<and> Split ''#a, b'' CHR '','' = [''#a'', '' b'']
   \<and> TrimSpace '' b'' = ''b''
   \<and> isl (parseConfig (one_file ''f'' (''channels=#a, b'' @ [CHR 0x0A])) ''f'')
   \<and> entry ''channels= ,'' = Some (''channels'', '','')
   \<and> isl (parseConfig (one_file ''f'' (''channels= ,'' @ [CHR 0x0A] @ ''nick=bot'' @ [CHR 0x0A])) ''f'')
   \<and> isl (parseConfig (one_file ''f'' (''# no host'' @ [CHR 0x0A] @ ''nick=bot'' @ [CHR 0x0A])) ''f'')
   \<and> ParseInt ''66x7'' = None
   \<and> isl (parseConfig (one_file ''f'' (''server-port=66x7'' @ [CHR 0x0A])) ''f'')"
proof -
  let ?dup = "''nick=a'' @ [CHR 0x0A] @ ''nick=b'' @ [CHR 0x0A]"
  let ?nick = "''channels=#a'' @ [CHR 0x0A] @ ''nick='' @ [CHR 0x0A]"
  let ?chan = "''channels=#a, b'' @ [CHR 0x0A]"
  let ?nochan = "''channels= ,'' @ [CHR 0x0A] @ ''nick=bot'' @ [CHR 0x0A]"
  let ?host = "''# no host'' @ [CHR 0x0A] @ ''nick=bot'' @ [CHR 0x0A]"
  let ?port = "''server-port=66x7'' @ [CHR 0x0A]"
  have rf: "one_file ''f'' b ''f'' = Inr b" for b by (simp add: one_file_def)
  have d0: "file_lines ?dup = [''nick=a'', ''nick=b'']" by (simp add: lines_eval)
  have d1: "entry (file_lines ?dup ! 0) = Some (''nick'', ''a'')"
    and d2: "entry (file_lines ?dup ! 1) = Some (''nick'', ''b'')"
    unfolding d0 by (simp_all add: parse_eval)
  have "\<exists>i j k v1 v2. i < j \<and> j < length (file_lines ?dup) \<and>
             entry (file_lines ?dup ! i) = Some (k, v1) \<and>
             entry (file_lines ?dup ! j) = Some (k, v2)"
    using d1 d2 d0 by (intro exI[of _ 0] exI[of _ "Suc 0"] exI[of _ "''nick''"] exI[of _ "''a''"] exI[of _ "''b''"]) simp
  with parseConfig_accepts_and_rejects[of "''f''" "one_file ''f'' ?dup" ?dup] rf
  have 1: "isl (parseConfig (one_file ''f'' ?dup) ''f'')" by blast
  have n0: "file_lines ?nick = [''channels=#a'', ''nick='']" by (simp add: lines_eval)
  have n1: "entry ''nick='' = Some (''nick'', [])" by (simp add: parse_eval)
  have n2: "entry ''channels=#a'' = Some (''channels'', ''#a'')" by (simp add: parse_eval)
  have "\<forall>line \<in> set (file_lines ?nick). \<forall>v. entry line = Some (''nick'', v) \<longrightarrow> v = []"
    unfolding n0 using n1 n2 by simp
  with parseConfig_accepts_and_rejects[of "''f''" "one_file ''f'' ?nick" ?nick] rf
  have 2: "isl (parseConfig (one_file ''f'' ?nick) ''f'')" by blast
  have c0: "file_lines ?chan = [''channels=#a, b'']" by (simp add: lines_eval)
  have c1: "entry ''channels=#a, b'' = Some (''channels'', ''#a, b'')" by (simp add: parse_eval)
  have c2: "Split ''#a, b'' CHR '','' = [''#a'', '' b'']" by simp
  have c3: "TrimSpace '' b'' = ''b''" by (simp add: parse_eval)
  have "\<exists>line \<in> set (file_lines ?chan). \<exists>v. entry line = Some (''channels'', v) \<and>
              (\<exists>item \<in> set (Split v CHR '',''). TrimSpace item \<noteq> [] \<and>
                   hd (TrimSpace item) \<noteq> CHR ''#'')"
    unfolding c0 using c1 c2 c3 by simp
  with parseConfig_accepts_and_rejects[of "''f''" "one_file ''f'' ?chan" ?chan] rf
  have 3: "isl (parseConfig (one_file ''f'' ?chan) ''f'')" by blast
  have o0: "file_lines ?nochan = [''channels= ,'', ''nick=bot'']" by (simp add: lines_eval)
  have o1: "entry ''channels= ,'' = Some (''channels'', '','')" by (simp add: parse_eval)
  have o2: "entry ''nick=bot'' = Some (''nick'', ''bot'')" by (simp add: parse_eval)
  have o3: "TrimSpace [] = []" by (simp add: parse_eval)
  have "\<forall>line \<in> set (file_lines ?nochan). \<forall>v. entry line = Some (''channels'', v) \<longrightarrow>
              (\<forall>item \<in> set (Split v CHR '',''). TrimSpace item = [])"
    unfolding o0 using o1 o2 o3 by simp
  with parseConfig_accepts_and_rejects[of "''f''" "one_file ''f'' ?nochan" ?nochan] rf
  have 4: "isl (parseConfig (one_file ''f'' ?nochan) ''f'')" by blast
  have h0: "file_lines ?host = [''# no host'', ''nick=bot'']" by (simp add: lines_eval)
  have h1: "entry ''# no host'' = None" by (simp add: parse_eval)
  have "\<forall>line \<in> set (file_lines ?host). \<forall>v. entry line = Some (''server-host'', v) \<longrightarrow> v = []"
    unfolding h0 using h1 o2 by simp
  with parseConfig_accepts_and_rejects[of "''f''" "one_file ''f'' ?host" ?host] rf
  have 5: "isl (parseConfig (one_file ''f'' ?host) ''f'')" by blast
  have p0: "file_lines ?port = [''server-port=66x7'']" by (simp add: lines_eval)
  have p1: "entry ''server-port=66x7'' = Some (''server-port'', ''66x7'')" by (simp add: parse_eval)
  have p2: "ParseInt ''66x7'' = None" by (simp add: parse_eval)
  have "\<forall>line \<in> set (file_lines ?port). \<forall>v. entry line = Some (''server-port'', v) \<longrightarrow>
              ParseInt v = None"
    unfolding p0 using p1 p2 by simp
  with parseConfig_accepts_and_rejects[of "''f''" "one_file ''f'' ?port" ?port] rf
  have 6: "isl (parseConfig (one_file ''f'' ?port) ''f'')" by blast
  from d1 d2 1 n0 n1 2 c1 c2 c3 3 o1 4 5 p2 6 show ?thesis by blast
qed

end
